theory Spec2Isabelle
  imports Complex_Main
begin

section \<open>JavaScript strings\<close>

text \<open>
  A JavaScript string is a sequence of UTF-16 code units and \<open>length\<close>, \<open>substring\<close>
  and the regular expression of the extractor all count code units. A code unit is a
  natural number here (a real one is below 65536; nothing below depends on the bound),
  and \<open>js\<close> writes an ASCII literal of the source as such a sequence.
\<close>

type_synonym jsstring = "nat list"

definition js :: "string \<Rightarrow> jsstring" where
  "js s = map of_char s"

section \<open>Token Budgeter: \<open>estimateTokens\<close> and \<open>truncateContent\<close>\<close>

text \<open>
  \<^verbatim>\<open>private estimateTokens(text: string): number { return Math.ceil(text.length / 4); }\<close>
\<close>

definition estimateTokens :: "jsstring \<Rightarrow> nat" where
  "estimateTokens text = (length text + 3) div 4"

text \<open>The marker \<^verbatim>\<open>"\n\n[Content truncated due to size limits...]"\<close> of the source.\<close>

definition truncation_marker :: jsstring where
  "truncation_marker = js ''\<newline>\<newline>[Content truncated due to size limits...]''"

text \<open>
  \<^verbatim>\<open>truncateContent(content, maxTokens)\<close>. The budget is a JavaScript number; the two
  call sites pass the integers 5000 and 10000, and the model takes any integer.
  \<^verbatim>\<open>content.substring(0, maxChars)\<close> treats a negative \<open>maxChars\<close> as 0 and one
  beyond the length as the length, which is \<open>take (nat maxChars)\<close>.
\<close>

definition truncateContent :: "jsstring \<Rightarrow> int \<Rightarrow> jsstring" where
  "truncateContent content maxTokens =
     (let estimatedTokens = estimateTokens content in
      if int estimatedTokens \<le> maxTokens then content
      else
        let maxChars = maxTokens * 4;
            truncated = take (nat maxChars) content
        in truncated @ truncation_marker)"

section \<open>String operations of the runtime\<close>

text \<open>\<^verbatim>\<open>s.includes(needle)\<close>: the needle occurs somewhere in the string.\<close>

fun js_includes :: "jsstring \<Rightarrow> jsstring \<Rightarrow> bool" where
  "js_includes [] needle = (needle = [])"
| "js_includes (c # cs) needle =
     (take (length needle) (c # cs) = needle \<or> js_includes cs needle)"

text \<open>\<^verbatim>\<open>parts.join(sep)\<close>.\<close>

fun join :: "jsstring \<Rightarrow> jsstring list \<Rightarrow> jsstring" where
  "join sep [] = []"
| "join sep [x] = x"
| "join sep (x # y # ys) = x @ sep @ join sep (y # ys)"

text \<open>\<^verbatim>\<open>xs.slice(-n)\<close>: the last \<open>n\<close> elements, the whole list when it is shorter.\<close>

definition slice_last :: "nat \<Rightarrow> 'a list \<Rightarrow> 'a list" where
  "slice_last n xs = drop (length xs - n) xs"

text \<open>The decimal digits of an array index, as \<^verbatim>\<open>String(i)\<close> writes them.\<close>

function decimal :: "nat \<Rightarrow> jsstring" where
  "decimal n = (if n < 10 then [48 + n] else decimal (n div 10) @ [48 + n mod 10])"
  by pat_completeness auto
termination
  by (relation "measure (\<lambda>n. n)") auto

section \<open>JSON values and \<open>JSON.parse\<close>\<close>

text \<open>
  The values \<^verbatim>\<open>JSON.parse\<close> produces. An object is the list of its members in the
  order of first insertion; a number is kept as the exact rational its literal denotes.
  JavaScript rounds the number to a double and enumerates integer-like keys before the
  others; of a number the program only tests whether it is zero (see \<open>truthy\<close>), and
  the order of the members is seen by the serializer alone, which is a parameter below.
\<close>

datatype json =
    JNull
  | JBool bool
  | JNumber rat
  | JString jsstring
  | JArray "json list"
  | JObject "(jsstring \<times> json) list"

text \<open>
  What the program can throw. \<open>Error m\<close> is \<^verbatim>\<open>new Error(m)\<close>; the message texts of the
  runtime's own \<open>SyntaxError\<close> and \<open>TypeError\<close> depend on the engine and are not modelled.
\<close>

datatype js_error = Error jsstring | SyntaxError | TypeError

text \<open>
  \<^verbatim>\<open>obj[k] = v\<close> on an object: an existing member keeps its place and takes the new
  value, a new member goes last. \<^verbatim>\<open>JSON.parse\<close> treats a repeated key the same way.
\<close>

fun obj_put :: "jsstring \<Rightarrow> json \<Rightarrow> (jsstring \<times> json) list \<Rightarrow> (jsstring \<times> json) list" where
  "obj_put k v [] = [(k, v)]"
| "obj_put k v ((k', v') # ms) = (if k' = k then (k, v) # ms else (k', v') # obj_put k v ms)"

text \<open>
  JavaScript truthiness of a parsed value, as \<^verbatim>\<open>a || b\<close> tests it. A number literal
  becomes the nearest double (ties to even), which is zero exactly when the literal's
  magnitude is at most \<open>2\<^sup>-\<^sup>1\<^sup>0\<^sup>7\<^sup>5\<close>, half the smallest positive double.
\<close>

fun truthy :: "json \<Rightarrow> bool" where
  "truthy JNull = False"
| "truthy (JBool b) = b"
| "truthy (JNumber q) = (1 / 2 ^ 1075 < \<bar>q\<bar>)"
| "truthy (JString s) = (s \<noteq> [])"
| "truthy (JArray _) = True"
| "truthy (JObject _) = True"

text \<open>\<^verbatim>\<open>a || b\<close> where \<open>a\<close> is a property read (\<open>None\<close> is \<^verbatim>\<open>undefined\<close>).\<close>

definition or_else :: "json option \<Rightarrow> json \<Rightarrow> json" where
  "or_else a b = (case a of Some v \<Rightarrow> if truthy v then v else b | None \<Rightarrow> b)"

subsection \<open>Lexical analysis (ECMA-404)\<close>

datatype token = TLBrace | TRBrace | TLBrack | TRBrack | TComma | TColon
  | TString jsstring | TLit json

definition is_digit :: "nat \<Rightarrow> bool" where
  "is_digit c \<longleftrightarrow> 48 \<le> c \<and> c \<le> 57"

definition is_whitespace :: "nat \<Rightarrow> bool" where
  "is_whitespace c \<longleftrightarrow> c = 32 \<or> c = 9 \<or> c = 10 \<or> c = 13"

definition hexval :: "nat \<Rightarrow> nat option" where
  "hexval c =
     (if 48 \<le> c \<and> c \<le> 57 then Some (c - 48)
      else if 65 \<le> c \<and> c \<le> 70 then Some (c - 55)
      else if 97 \<le> c \<and> c \<le> 102 then Some (c - 87)
      else None)"

definition hex4 :: "nat \<Rightarrow> nat \<Rightarrow> nat \<Rightarrow> nat \<Rightarrow> nat option" where
  "hex4 a b c d =
     (case (hexval a, hexval b, hexval c, hexval d) of
        (Some h1, Some h2, Some h3, Some h4) \<Rightarrow> Some (((h1 * 16 + h2) * 16 + h3) * 16 + h4)
      | _ \<Rightarrow> None)"

text \<open>The character after a backslash, other than \<open>u\<close>.\<close>

definition unescape :: "nat \<Rightarrow> nat option" where
  "unescape e =
     (if e = of_char CHR 0x22 then Some 34
      else if e = of_char CHR 0x5C then Some 92
      else if e = of_char CHR ''/'' then Some 47
      else if e = of_char CHR ''b'' then Some 8
      else if e = of_char CHR ''f'' then Some 12
      else if e = of_char CHR ''n'' then Some 10
      else if e = of_char CHR ''r'' then Some 13
      else if e = of_char CHR ''t'' then Some 9
      else None)"

text \<open>
  The rest of a string literal after its opening quote: the decoded string and what
  follows the closing quote. A raw control character or an unknown escape is an error.
\<close>

fun scan_string :: "jsstring \<Rightarrow> jsstring \<Rightarrow> (jsstring \<times> jsstring) option" where
  "scan_string acc [] = None"
| "scan_string acc [c] = (if c = of_char CHR 0x22 then Some (rev acc, []) else None)"
| "scan_string acc (c # e # cs) =
     (if c = of_char CHR 0x22 then Some (rev acc, e # cs)
      else if c = of_char CHR 0x5C then
        (if e = of_char CHR ''u'' then
           (case cs of
              h1 # h2 # h3 # h4 # rest \<Rightarrow>
                (case hex4 h1 h2 h3 h4 of
                   Some u \<Rightarrow> scan_string (u # acc) rest
                 | None \<Rightarrow> None)
            | _ \<Rightarrow> None)
         else
           (case unescape e of
              Some x \<Rightarrow> scan_string (x # acc) cs
            | None \<Rightarrow> None))
      else if c < 32 then None
      else scan_string (c # acc) (e # cs))"

definition digits_value :: "jsstring \<Rightarrow> nat" where
  "digits_value ds = foldl (\<lambda>a d. 10 * a + (d - 48)) 0 ds"

definition scan_sign :: "jsstring \<Rightarrow> bool \<times> jsstring" where
  "scan_sign cs =
     (case cs of
        c # r \<Rightarrow> if c = of_char CHR ''-'' then (True, r) else (False, cs)
      | [] \<Rightarrow> (False, cs))"

definition scan_fraction :: "jsstring \<Rightarrow> (jsstring \<times> jsstring) option" where
  "scan_fraction cs =
     (case cs of
        c # r \<Rightarrow>
          if c = of_char CHR ''.'' then
            (if takeWhile is_digit r = [] then None
             else Some (takeWhile is_digit r, dropWhile is_digit r))
          else Some ([], cs)
      | [] \<Rightarrow> Some ([], cs))"

definition scan_exponent_sign :: "jsstring \<Rightarrow> int \<times> jsstring" where
  "scan_exponent_sign cs =
     (case cs of
        c # r \<Rightarrow>
          if c = of_char CHR ''+'' then (1, r)
          else if c = of_char CHR ''-'' then (- 1, r)
          else (1, cs)
      | [] \<Rightarrow> (1, cs))"

definition scan_exponent :: "jsstring \<Rightarrow> (int \<times> jsstring) option" where
  "scan_exponent cs =
     (case cs of
        c # r \<Rightarrow>
          if c = of_char CHR ''e'' \<or> c = of_char CHR ''E'' then
            (case scan_exponent_sign r of
               (sg, r') \<Rightarrow>
                 if takeWhile is_digit r' = [] then None
                 else Some (sg * int (digits_value (takeWhile is_digit r')), dropWhile is_digit r'))
          else Some (0, cs)
      | [] \<Rightarrow> Some (0, cs))"

definition number_value :: "bool \<Rightarrow> jsstring \<Rightarrow> jsstring \<Rightarrow> int \<Rightarrow> rat" where
  "number_value neg ip fp e =
     (let m = of_nat (digits_value ip) + of_nat (digits_value fp) / 10 ^ length fp;
          v = (if 0 \<le> e then m * 10 ^ nat e else m / 10 ^ nat (- e))
      in if neg then - v else v)"

text \<open>
  A number literal: an optional minus, an integer part without a leading zero (unless it
  is the single digit 0), an optional fraction, an optional exponent.
\<close>

definition scan_number :: "jsstring \<Rightarrow> (rat \<times> jsstring) option" where
  "scan_number cs =
     (case scan_sign cs of
        (neg, cs1) \<Rightarrow>
          let ip = takeWhile is_digit cs1 in
          if ip = [] \<or> (1 < length ip \<and> hd ip = of_char CHR ''0'') then None
          else
            (case scan_fraction (dropWhile is_digit cs1) of
               None \<Rightarrow> None
             | Some (fp, cs2) \<Rightarrow>
                 (case scan_exponent cs2 of
                    None \<Rightarrow> None
                  | Some (e, cs3) \<Rightarrow> Some (number_value neg ip fp e, cs3))))"

text \<open>Every scanner consumes input, which is what makes the lexer terminate.\<close>

lemma scan_string_shorter: "scan_string acc cs = Some (s, rest) \<Longrightarrow> length rest < length cs"
proof (induction acc cs rule: scan_string.induct)
  case (1 acc)
  then show ?case by simp
next
  case (2 acc c)
  then show ?case by (simp split: if_splits)
next
  case (3 acc c e cs)
  show ?case
  proof (cases "c = of_char CHR 0x22")
    case True
    with "3.prems" show ?thesis by simp
  next
    case quote: False
    show ?thesis
    proof (cases "c = of_char CHR 0x5C")
      case bs: True
      show ?thesis
      proof (cases "e = of_char CHR ''u''")
        case u: True
        from "3.prems" quote bs u obtain h1 h2 h3 h4 r v
          where cs: "cs = h1 # h2 # h3 # h4 # r" and h: "hex4 h1 h2 h3 h4 = Some v"
            and scan: "scan_string (v # acc) r = Some (s, rest)"
          by (auto split: list.splits option.splits)
        from "3.IH"(1) [OF quote bs u cs refl refl refl h scan] cs show ?thesis by simp
      next
        case nu: False
        from "3.prems" quote bs nu obtain x
          where x: "unescape e = Some x" and scan: "scan_string (x # acc) cs = Some (s, rest)"
          by (auto split: option.splits)
        from "3.IH"(2) [OF quote bs nu x scan] show ?thesis by simp
      qed
    next
      case nbs: False
      with "3.prems" quote have c32: "\<not> c < 32"
        and scan: "scan_string (c # acc) (e # cs) = Some (s, rest)"
        by (auto split: if_splits)
      from "3.IH"(3) [OF quote nbs c32 scan] show ?thesis by simp
    qed
  qed
qed

lemma length_dropWhile_less: "takeWhile P xs \<noteq> [] \<Longrightarrow> length (dropWhile P xs) < length xs"
  by (cases xs) (auto simp: less_Suc_eq_le length_dropWhile_le split: if_splits)

lemma scan_sign_length: "scan_sign cs = (neg, r) \<Longrightarrow> length r \<le> length cs"
  by (auto simp: scan_sign_def split: list.splits if_splits)

lemma scan_fraction_length: "scan_fraction cs = Some (fp, r) \<Longrightarrow> length r \<le> length cs"
  by (auto simp: scan_fraction_def less_Suc_eq_le length_dropWhile_le le_SucI
      split: list.splits if_splits)

lemma scan_exponent_sign_length: "scan_exponent_sign cs = (sg, r) \<Longrightarrow> length r \<le> length cs"
  by (auto simp: scan_exponent_sign_def split: list.splits if_splits)

lemma scan_exponent_length:
  assumes "scan_exponent cs = Some (e, r)"
  shows "length r \<le> length cs"
proof (cases cs)
  case Nil
  with assms show ?thesis by (simp add: scan_exponent_def)
next
  case (Cons c r0)
  show ?thesis
  proof (cases "c = of_char CHR ''e'' \<or> c = of_char CHR ''E''")
    case False
    with assms Cons show ?thesis by (auto simp: scan_exponent_def)
  next
    case True
    obtain sg r' where s: "scan_exponent_sign r0 = (sg, r')"
      by (cases "scan_exponent_sign r0")
    from assms Cons True s have "r = dropWhile is_digit r'"
      by (auto simp: scan_exponent_def split: if_splits)
    moreover have "length (dropWhile is_digit r') \<le> length r'"
      by (rule length_dropWhile_le)
    moreover from s have "length r' \<le> length r0"
      by (rule scan_exponent_sign_length)
    ultimately show ?thesis using Cons by simp
  qed
qed

lemma scan_number_shorter:
  assumes "scan_number cs = Some (q, rest)"
  shows "length rest < length cs"
proof -
  obtain neg cs1 where s: "scan_sign cs = (neg, cs1)"
    by (cases "scan_sign cs")
  from assms s have ip: "takeWhile is_digit cs1 \<noteq> []"
    by (auto simp: scan_number_def Let_def split: if_splits)
  from assms s ip obtain fp cs2 where f: "scan_fraction (dropWhile is_digit cs1) = Some (fp, cs2)"
    by (auto simp: scan_number_def Let_def split: if_splits option.splits)
  from assms s ip f obtain e where x: "scan_exponent cs2 = Some (e, rest)"
    by (auto simp: scan_number_def Let_def split: if_splits option.splits)
  have "length rest \<le> length cs2"
    using x by (rule scan_exponent_length)
  also have "\<dots> \<le> length (dropWhile is_digit cs1)"
    using f by (rule scan_fraction_length)
  also have "\<dots> < length cs1"
    using ip by (rule length_dropWhile_less)
  also have "\<dots> \<le> length cs"
    using s by (rule scan_sign_length)
  finally show ?thesis .
qed

text \<open>The token sequence of a text, or \<open>None\<close> where no token starts.\<close>

function lex :: "jsstring \<Rightarrow> token list option" where
  "lex [] = Some []"
| "lex (c # cs) =
     (if is_whitespace c then lex cs
      else if c = of_char CHR ''{'' then map_option ((#) TLBrace) (lex cs)
      else if c = of_char CHR ''}'' then map_option ((#) TRBrace) (lex cs)
      else if c = of_char CHR ''['' then map_option ((#) TLBrack) (lex cs)
      else if c = of_char CHR '']'' then map_option ((#) TRBrack) (lex cs)
      else if c = of_char CHR '','' then map_option ((#) TComma) (lex cs)
      else if c = of_char CHR '':'' then map_option ((#) TColon) (lex cs)
      else if c = of_char CHR 0x22 then
        (case scan_string [] cs of
           None \<Rightarrow> None
         | Some (s, rest) \<Rightarrow> map_option ((#) (TString s)) (lex rest))
      else if c = of_char CHR ''-'' \<or> is_digit c then
        (case scan_number (c # cs) of
           None \<Rightarrow> None
         | Some (q, rest) \<Rightarrow> map_option ((#) (TLit (JNumber q))) (lex rest))
      else if take 4 (c # cs) = js ''true'' then
        map_option ((#) (TLit (JBool True))) (lex (drop 3 cs))
      else if take 5 (c # cs) = js ''false'' then
        map_option ((#) (TLit (JBool False))) (lex (drop 4 cs))
      else if take 4 (c # cs) = js ''null'' then
        map_option ((#) (TLit JNull)) (lex (drop 3 cs))
      else None)"
  by pat_completeness auto
termination
proof (relation "measure length")
  fix c cs x2 x y
  assume "scan_string [] cs = Some x2" and "(x, y) = x2"
  then have "length y < length cs"
    by (auto dest: scan_string_shorter)
  then show "(y, c # cs) \<in> measure length"
    by simp
next
  fix c cs x2 x y
  assume "scan_number (c # cs) = Some x2" and "(x, y) = x2"
  then have "length y < length (c # cs)"
    by (auto dest: scan_number_shorter)
  then show "(y, c # cs) \<in> measure length"
    by simp
qed auto

subsection \<open>Syntax analysis\<close>

text \<open>
  A pushdown automaton over the tokens. A frame is an open array with the elements read
  so far (last first), or an open object with its members and the key whose value is
  being read.
\<close>

datatype frame = ArrF "json list" | ObjF "(jsstring \<times> json) list" jsstring

datatype pstate =
    ExpValue "frame list"
  | ExpValueOrClose "frame list"
  | ExpKeyOrClose "frame list"
  | ExpKey "(jsstring \<times> json) list" "frame list"
  | ExpColon "(jsstring \<times> json) list" jsstring "frame list"
  | AfterElement "json list" "frame list"
  | AfterMember "(jsstring \<times> json) list" "frame list"
  | Done json

fun reduce :: "json \<Rightarrow> frame list \<Rightarrow> pstate" where
  "reduce v [] = Done v"
| "reduce v (ArrF es # stk) = AfterElement (v # es) stk"
| "reduce v (ObjF ms k # stk) = AfterMember (obj_put k v ms) stk"

fun begin_value :: "token \<Rightarrow> frame list \<Rightarrow> pstate option" where
  "begin_value (TLit v) stk = Some (reduce v stk)"
| "begin_value (TString s) stk = Some (reduce (JString s) stk)"
| "begin_value TLBrack stk = Some (ExpValueOrClose stk)"
| "begin_value TLBrace stk = Some (ExpKeyOrClose stk)"
| "begin_value _ stk = None"

fun step :: "pstate \<Rightarrow> token \<Rightarrow> pstate option" where
  "step (ExpValue stk) t = begin_value t stk"
| "step (ExpValueOrClose stk) t =
     (case t of
        TRBrack \<Rightarrow> Some (reduce (JArray []) stk)
      | _ \<Rightarrow> begin_value t (ArrF [] # stk))"
| "step (ExpKeyOrClose stk) t =
     (case t of
        TRBrace \<Rightarrow> Some (reduce (JObject []) stk)
      | TString k \<Rightarrow> Some (ExpColon [] k stk)
      | _ \<Rightarrow> None)"
| "step (ExpKey ms stk) t =
     (case t of TString k \<Rightarrow> Some (ExpColon ms k stk) | _ \<Rightarrow> None)"
| "step (ExpColon ms k stk) t =
     (case t of TColon \<Rightarrow> Some (ExpValue (ObjF ms k # stk)) | _ \<Rightarrow> None)"
| "step (AfterElement es stk) t =
     (case t of
        TComma \<Rightarrow> Some (ExpValue (ArrF es # stk))
      | TRBrack \<Rightarrow> Some (reduce (JArray (rev es)) stk)
      | _ \<Rightarrow> None)"
| "step (AfterMember ms stk) t =
     (case t of
        TComma \<Rightarrow> Some (ExpKey ms stk)
      | TRBrace \<Rightarrow> Some (reduce (JObject ms) stk)
      | _ \<Rightarrow> None)"
| "step (Done v) t = None"

fun run :: "pstate \<Rightarrow> token list \<Rightarrow> pstate option" where
  "run st [] = Some st"
| "run st (t # ts) = (case step st t of None \<Rightarrow> None | Some st' \<Rightarrow> run st' ts)"

text \<open>\<^verbatim>\<open>JSON.parse(text)\<close>: the value, or a thrown \<open>SyntaxError\<close>.\<close>

definition JSON_parse :: "jsstring \<Rightarrow> js_error + json" where
  "JSON_parse text =
     (case lex text of
        None \<Rightarrow> Inl SyntaxError
      | Some ts \<Rightarrow>
          (case run (ExpValue []) ts of
             Some (Done v) \<Rightarrow> Inr v
           | _ \<Rightarrow> Inl SyntaxError))"

section \<open>ToolHost Adapter: \<open>GitHubMCPClient\<close>\<close>

text \<open>
  A content segment of a tool result,
  \<^verbatim>\<open>{ type: string; text?: string; [key: string]: any }\<close>, is the list of its members.
  The interface types \<open>text\<close> as an optional string, and \<open>item_text\<close> reads it so.
\<close>

type_synonym ContentItem = "(jsstring \<times> json) list"

definition item_text :: "ContentItem \<Rightarrow> jsstring option" where
  "item_text item =
     (case map_of item (js ''text'') of Some (JString s) \<Rightarrow> Some s | _ \<Rightarrow> None)"

record MCPToolResult =
  content :: "ContentItem list"
  isError :: bool

text \<open>
  What the SDK client behind the adapter returns from
  \<^verbatim>\<open>this.client.callTool({ name, arguments })\<close>: the content of the envelope (\<open>None\<close> when
  \<^verbatim>\<open>result.content\<close> is absent) and the error flag with which the capability host marks
  a failed tool run (an absent flag is \<open>False\<close>).
\<close>

record CallToolResult =
  result_content :: "ContentItem list option"
  result_isError :: bool

text \<open>
  The SDK client: \<open>Inl m\<close> is a call that throws, \<open>m\<close> being what
  \<^verbatim>\<open>error instanceof Error ? error.message : String(error)\<close> reads from the thrown value;
  \<open>Inr r\<close> is a call that returns the envelope \<open>r\<close>. The adapter's \<open>client\<close> field is
  \<open>None\<close> before \<^verbatim>\<open>connect()\<close> and after \<^verbatim>\<open>disconnect()\<close>.
\<close>

type_synonym sdk_client = "jsstring \<Rightarrow> json \<Rightarrow> jsstring + CallToolResult"

record GitHubMCPClient =
  client :: "sdk_client option"

text \<open>
  \<^verbatim>\<open>{ ...args }\<close>: the own enumerable properties of the value. An object gives its
  members, an array its elements under their indices, a string its code units under
  their indices, and \<^verbatim>\<open>null\<close>, a number or a boolean give none.
\<close>

fun spread :: "json \<Rightarrow> (jsstring \<times> json) list" where
  "spread (JObject ms) = ms"
| "spread (JArray es) = zip (map decimal [0..<length es]) es"
| "spread (JString s) = zip (map decimal [0..<length s]) (map (\<lambda>c. JString [c]) s)"
| "spread _ = []"

text \<open>\<^verbatim>\<open>openAIToolName.replace(/^mcp_GitHub_/, "")\<close>.\<close>

definition strip_mcp_prefix :: "jsstring \<Rightarrow> jsstring" where
  "strip_mcp_prefix name =
     (if take 11 name = js ''mcp_GitHub_'' then drop 11 name else name)"

definition mapToolNameAndArgs :: "jsstring \<Rightarrow> json \<Rightarrow> jsstring \<times> (jsstring \<times> json) list" where
  "mapToolNameAndArgs openAIToolName args =
     (let adjustedArgs = spread args in
      if openAIToolName = js ''mcp_GitHub_list_pull_requests'' then
        (js ''list_pull_requests'', adjustedArgs)
      else if openAIToolName = js ''mcp_GitHub_get_pull_request'' then
        (js ''pull_request_read'', obj_put (js ''method'') (JString (js ''get'')) adjustedArgs)
      else if openAIToolName = js ''mcp_GitHub_get_pull_request_diff'' then
        (js ''pull_request_read'', obj_put (js ''method'') (JString (js ''diff'')) adjustedArgs)
      else if openAIToolName = js ''mcp_GitHub_get_pull_request_files'' then
        (js ''pull_request_read'', obj_put (js ''method'') (JString (js ''files'')) adjustedArgs)
      else if openAIToolName = js ''mcp_GitHub_list_commits'' then
        (js ''list_commits'', adjustedArgs)
      else if openAIToolName = js ''list_org_repositories''
              \<or> js_includes openAIToolName (js ''org_repo'') then
        (js ''list_org_repositories'', adjustedArgs)
      else (strip_mcp_prefix openAIToolName, adjustedArgs))"

text \<open>
  \<^verbatim>\<open>callTool(toolName, args)\<close>. The guard on \<^verbatim>\<open>this.client\<close> stands before the
  \<^verbatim>\<open>try\<close> block and throws to the caller; everything after it is inside the block,
  whose \<^verbatim>\<open>catch\<close> returns an error envelope. Of a returned envelope only
  \<^verbatim>\<open>result.content\<close> is read; the flag of the result is the literal \<^verbatim>\<open>false\<close>.
\<close>

definition callTool :: "GitHubMCPClient \<Rightarrow> jsstring \<Rightarrow> json \<Rightarrow> js_error + MCPToolResult" where
  "callTool this toolName args =
     (case client this of
        None \<Rightarrow> Inl (Error (js ''MCP client not connected''))
      | Some sdk \<Rightarrow>
          (case mapToolNameAndArgs toolName args of
             (actualToolName, adjustedArgs) \<Rightarrow>
               (case sdk actualToolName (JObject adjustedArgs) of
                  Inr result \<Rightarrow>
                    Inr \<lparr>content =
                           (case result_content result of Some items \<Rightarrow> items | None \<Rightarrow> []),
                         isError = False\<rparr>
                | Inl errorMessage \<Rightarrow>
                    Inr \<lparr>content =
                           [[(js ''type'', JString (js ''text'')),
                             (js ''text'',
                              JString (js ''Error calling tool '' @ toolName @ js '': ''
                                       @ errorMessage))]],
                         isError = True\<rparr>)))"

section \<open>Structured-Result Extractor: \<open>parseSummaryFromMessage\<close>\<close>

text \<open>
  The fields of the summary that come out of the decoded payload are whatever values
  the payload holds (the source does not check their types), so they are JSON values.
\<close>

record RepoSummary =
  repoName :: jsstring
  owner :: jsstring
  overallSummary :: json
  pullRequests :: json
  breakingChanges :: json

text \<open>
  \<^verbatim>\<open>content.match(/\{[\s\S]*\}/)\<close>. The match starts at the first \<^verbatim>\<open>{\<close> that has a
  \<^verbatim>\<open>}\<close> after it, which is the first \<^verbatim>\<open>{\<close> of the text if any has, and the greedy
  \<^verbatim>\<open>[\s\S]*\<close> extends it to the last \<^verbatim>\<open>}\<close> of the text.
\<close>

definition jsonMatch :: "jsstring \<Rightarrow> jsstring option" where
  "jsonMatch content' =
     (let from_brace = dropWhile (\<lambda>c. c \<noteq> of_char CHR ''{'') content';
          to_brace = rev (dropWhile (\<lambda>c. c \<noteq> of_char CHR ''}'') (rev from_brace))
      in if to_brace = [] then None else Some to_brace)"

text \<open>
  \<^verbatim>\<open>parsed.name\<close> for the three names the extractor reads: a member of an object,
  \<^verbatim>\<open>undefined\<close> (\<open>None\<close>) on any other value, and a \<open>TypeError\<close> on \<^verbatim>\<open>null\<close>.
\<close>

fun read_property :: "json \<Rightarrow> jsstring \<Rightarrow> js_error + json option" where
  "read_property JNull name = Inl TypeError"
| "read_property (JObject ms) name = Inr (map_of ms name)"
| "read_property _ name = Inr None"

definition no_summary :: jsstring where
  "no_summary = js ''No summary provided''"

text \<open>
  The body of the \<^verbatim>\<open>try\<close> block: \<open>Inr (Some s)\<close> returns \<open>s\<close>, \<open>Inr None\<close> leaves
  the block without returning (no match), \<open>Inl e\<close> throws \<open>e\<close>.
\<close>

definition decode_payload :: "jsstring \<Rightarrow> jsstring \<Rightarrow> jsstring \<Rightarrow> js_error + RepoSummary option" where
  "decode_payload content' owner' repo =
     (case jsonMatch content' of
        None \<Rightarrow> Inr None
      | Some m \<Rightarrow>
          (case JSON_parse m of
             Inl e \<Rightarrow> Inl e
           | Inr parsed \<Rightarrow>
               (case read_property parsed (js ''overallSummary'') of
                  Inl e \<Rightarrow> Inl e
                | Inr s \<Rightarrow>
                    (case read_property parsed (js ''pullRequests'') of
                       Inl e \<Rightarrow> Inl e
                     | Inr prs \<Rightarrow>
                         (case read_property parsed (js ''breakingChanges'') of
                            Inl e \<Rightarrow> Inl e
                          | Inr bcs \<Rightarrow>
                              Inr (Some \<lparr>repoName = repo, owner = owner',
                                         overallSummary = or_else s (JString no_summary),
                                         pullRequests = or_else prs (JArray []),
                                         breakingChanges = or_else bcs (JArray [])\<rparr>))))))"

text \<open>
  \<^verbatim>\<open>parseSummaryFromMessage(content, owner, repo)\<close>: the \<^verbatim>\<open>catch\<close> only logs, and
  both it and a block left without a return reach the fallback.
  \<^verbatim>\<open>content || "No summary provided"\<close> takes the placeholder for the empty string.
\<close>

definition parseSummaryFromMessage :: "jsstring \<Rightarrow> jsstring \<Rightarrow> jsstring \<Rightarrow> js_error + RepoSummary" where
  "parseSummaryFromMessage content' owner' repo =
     (case decode_payload content' owner' repo of
        Inr (Some summary) \<Rightarrow> Inr summary
      | _ \<Rightarrow>
          Inr \<lparr>repoName = repo, owner = owner',
               overallSummary = JString (if content' \<noteq> [] then content' else no_summary),
               pullRequests = JArray [],
               breakingChanges = JArray []\<rparr>)"

section \<open>Tool-Calling Loop: \<open>OpenAIAgent.summarizeRepo\<close>\<close>

subsection \<open>The conversation\<close>

text \<open>
  A tool call request of the reasoning service: \<^verbatim>\<open>toolCall.id\<close>,
  \<^verbatim>\<open>toolCall.function.name\<close> and \<^verbatim>\<open>toolCall.function.arguments\<close> (a serialized
  payload).
\<close>

record ToolCall =
  tc_id :: jsstring
  tc_name :: jsstring
  tc_arguments :: jsstring

text \<open>
  The assistant message of a completion: its text (\<open>None\<close> is \<^verbatim>\<open>null\<close>) and its tool
  calls (an absent \<^verbatim>\<open>tool_calls\<close> is the empty list; the source treats both alike).
\<close>

record ChatCompletionMessage =
  message_content :: "jsstring option"
  tool_calls :: "ToolCall list"

text \<open>
  The messages of the conversation by role. A tool message carries the
  \<^verbatim>\<open>tool_call_id\<close> it answers and its text.
\<close>

datatype message =
    System jsstring
  | User jsstring
  | Assistant ChatCompletionMessage
  | Tool jsstring jsstring

text \<open>
  The text whose tokens are counted:
  \<^verbatim>\<open>typeof msg.content === "string" ? msg.content : JSON.stringify(msg.content)\<close>, where
  the only content that is not a string is \<^verbatim>\<open>null\<close>.
\<close>

fun content_text :: "message \<Rightarrow> jsstring" where
  "content_text (System c) = c"
| "content_text (User c) = c"
| "content_text (Assistant a) = (case message_content a of Some c \<Rightarrow> c | None \<Rightarrow> js ''null'')"
| "content_text (Tool _ c) = c"

definition MAX_TOOL_RESULT_TOKENS :: int where
  "MAX_TOOL_RESULT_TOKENS = 5000"

definition MAX_TOTAL_MESSAGE_TOKENS :: nat where
  "MAX_TOTAL_MESSAGE_TOKENS = 20000"

definition maxIterations :: nat where
  "maxIterations = 20"

text \<open>The \<^verbatim>\<open>messages.reduce(...)\<close> at the head of the loop.\<close>

definition totalMessageSize :: "message list \<Rightarrow> nat" where
  "totalMessageSize messages =
     foldl (\<lambda>sum msg. sum + estimateTokens (content_text msg)) 0 messages"

text \<open>
  The pruning step at the head of the loop (lines 302 to 310; the specification calls it
  \<open>budgetConversation\<close>): \<^verbatim>\<open>messages = [messages[0], ...messages.slice(-5)]\<close> when the
  total exceeds the ceiling. The empty list has total 0 and never reaches the branch.
\<close>

definition budgetConversation :: "message list \<Rightarrow> message list" where
  "budgetConversation messages =
     (if MAX_TOTAL_MESSAGE_TOKENS < totalMessageSize messages then
        (case messages of
           [] \<Rightarrow> []
         | systemMsg # _ \<Rightarrow> systemMsg # slice_last 5 messages)
      else messages)"

subsection \<open>The collaborators\<close>

text \<open>
  What \<^verbatim>\<open>this.openai.chat.completions.create\<close> does: it rejects with an error, or it
  resolves to a response whose \<^verbatim>\<open>choices[0]?.message\<close> is absent or an assistant
  message.
\<close>

datatype completion = Rejected js_error | Choices "ChatCompletionMessage option"

text \<open>A \<^verbatim>\<open>Date\<close> is its time value; the caller passes valid dates.\<close>

type_synonym Date = int

text \<open>
  The world outside the agent. \<open>create i msgs\<close> is the reasoning service's answer in
  round \<open>i\<close> (counted from 0) to the message list \<open>msgs\<close>; \<open>mcpClient i j\<close> is the adapter
  as the \<open>j\<close>-th tool call of round \<open>i\<close> finds it; \<open>JSON_stringify\<close> is the runtime's
  serializer; \<open>format_date d\<close> is \<^verbatim>\<open>format(d, "yyyy-MM-dd")\<close> of the date library.
\<close>

record services =
  create :: "nat \<Rightarrow> message list \<Rightarrow> completion"
  mcpClient :: "nat \<Rightarrow> nat \<Rightarrow> GitHubMCPClient"
  JSON_stringify :: "json \<Rightarrow> jsstring"
  format_date :: "Date \<Rightarrow> jsstring"

subsection \<open>The prompts\<close>

text \<open>
  The template strings of \<^verbatim>\<open>buildSystemPrompt\<close> and \<^verbatim>\<open>buildUserPrompt\<close>, with the
  date formatter as the argument \<open>fmt\<close>.
\<close>

definition buildSystemPrompt ::
  "(Date \<Rightarrow> jsstring) \<Rightarrow> jsstring \<Rightarrow> jsstring \<Rightarrow> Date \<Rightarrow> Date \<Rightarrow> jsstring" where
  \<open>buildSystemPrompt fmt owner' repo startDate endDate =
      js ''You are an AI assistant helping to generate a newsletter summary for GitHub repository ''
      @ owner'
      @ js ''/''
      @ repo
      @ js ''.\<newline>''
      @ js ''\<newline>''
      @ js ''You have access to GitHub MCP tools that allow you to:\<newline>''
      @ js ''- List pull requests\<newline>''
      @ js ''- Get pull request details\<newline>''
      @ js ''- Get pull request diffs\<newline>''
      @ js ''- Get files changed in pull requests\<newline>''
      @ js ''- List commits\<newline>''
      @ js ''\<newline>''
      @ js ''Your task is to summarize all pull requests that were closed/merged between ''
      @ fmt startDate
      @ js '' and ''
      @ fmt endDate
      @ js ''.\<newline>''
      @ js ''\<newline>''
      @ js ''Use the GitHub MCP tools to gather information about the pull requests, then provide a comprehensive summary.''\<close>

definition buildUserPrompt ::
  "(Date \<Rightarrow> jsstring) \<Rightarrow> jsstring \<Rightarrow> jsstring \<Rightarrow> Date \<Rightarrow> Date \<Rightarrow> jsstring" where
  \<open>buildUserPrompt fmt owner' repo startDate endDate =
      js ''Summarize all pull requests that were closed/merged in ''
      @ owner'
      @ js ''/''
      @ repo
      @ js '' between ''
      @ fmt startDate
      @ js '' and ''
      @ fmt endDate
      @ js ''.\<newline>''
      @ js ''\<newline>''
      @ js ''Use the GitHub MCP tools to:\<newline>''
      @ js ''1. Fetch all pull requests that were closed/merged in the timeframe\<newline>''
      @ js ''2. For each PR, get details (number, title, author, merged date, description)\<newline>''
      @ js ''3. For large PRs, focus on file names and summary rather than full diffs\<newline>''
      @ js ''4. Generate a 1-2 sentence summary for each PR\<newline>''
      @ js ''5. Identify any high-risk or breaking changes\<newline>''
      @ js ''\<newline>''
      @ js ''IMPORTANT: If PR diffs are very large, focus on:\<newline>''
      @ js ''- File names changed\<newline>''
      @ js ''- High-level summary of changes\<newline>''
      @ js ''- Key functionality affected\<newline>''
      @ js ''- Avoid including full diff content unless necessary\<newline>''
      @ js ''\<newline>''
      @ js ''Provide your response in this JSON format:\<newline>''
      @ js ''{\<newline>''
      @ js ''  "overallSummary": "2-3 sentence summary of the week's activity",\<newline>''
      @ js ''  "pullRequests": [\<newline>''
      @ js ''    {\<newline>''
      @ js ''      "number": 123,\<newline>''
      @ js ''      "title": "PR title",\<newline>''
      @ js ''      "author": "username",\<newline>''
      @ js ''      "mergedDate": "2024-01-15",\<newline>''
      @ js ''      "url": "https://github.com/owner/repo/pull/123",\<newline>''
      @ js ''      "summary": "1-2 sentence summary of what this PR does"\<newline>''
      @ js ''    }\<newline>''
      @ js ''  ],\<newline>''
      @ js ''  "breakingChanges": [\<newline>''
      @ js ''    {\<newline>''
      @ js ''      "prNumber": 125,\<newline>''
      @ js ''      "description": "Description of breaking change"\<newline>''
      @ js ''    }\<newline>''
      @ js ''  ]\<newline>''
      @ js ''}''\<close>


subsection \<open>One tool call\<close>

text \<open>
  \<^verbatim>\<open>error instanceof Error ? error.message : String(error)\<close> in the \<^verbatim>\<open>catch\<close> of the
  loop. The only error that reaches it is the \<open>Error\<close> of \<open>callTool\<close>.
\<close>

fun error_message :: "js_error \<Rightarrow> jsstring" where
  "error_message (Error m) = m"
| "error_message SyntaxError = js ''SyntaxError''"
| "error_message TypeError = js ''TypeError''"

text \<open>\<^verbatim>\<open>item.text || JSON.stringify(item)\<close>.\<close>

definition item_or_json :: "(json \<Rightarrow> jsstring) \<Rightarrow> ContentItem \<Rightarrow> jsstring" where
  "item_or_json stringify item =
     (case item_text item of
        Some t \<Rightarrow> if t \<noteq> [] then t else stringify (JObject item)
      | None \<Rightarrow> stringify (JObject item))"

text \<open>The text of the tool message for a result that \<open>callTool\<close> returned (lines 344 to 379).\<close>

definition tool_result_text :: "(json \<Rightarrow> jsstring) \<Rightarrow> jsstring \<Rightarrow> MCPToolResult \<Rightarrow> jsstring" where
  "tool_result_text stringify toolName result =
     (if isError result then stringify (JArray (map JObject (content result)))
      else
        let joined = join (js ''\<newline>'') (map (item_or_json stringify) (content result));
            textContent =
              (if js_includes toolName (js ''diff'') \<or> js_includes toolName (js ''files'')
               then truncateContent joined MAX_TOOL_RESULT_TOKENS
               else truncateContent joined (MAX_TOOL_RESULT_TOKENS * 2))
        in if textContent \<noteq> [] then textContent
           else stringify (JArray (map JObject (content result))))"

text \<open>\<^verbatim>\<open>toolCall.function.arguments || "{}"\<close>.\<close>

definition argument_payload :: "ToolCall \<Rightarrow> jsstring" where
  "argument_payload toolCall =
     (if tc_arguments toolCall \<noteq> [] then tc_arguments toolCall else js ''{}'')"

text \<open>
  The body of the \<^verbatim>\<open>for\<close> loop for one tool call (lines 334 to 389): the message it
  pushes, or the error it throws. \<^verbatim>\<open>JSON.parse\<close> of the argument payload stands before
  the \<^verbatim>\<open>try\<close> block, so its \<open>SyntaxError\<close> is thrown out of \<open>summarizeRepo\<close>; an error of
  \<open>callTool\<close> is caught and becomes a tool message.
\<close>

definition handleToolCall :: "services \<Rightarrow> nat \<Rightarrow> nat \<Rightarrow> ToolCall \<Rightarrow> js_error + message" where
  "handleToolCall env iteration j toolCall =
     (let toolName = tc_name toolCall in
      case JSON_parse (argument_payload toolCall) of
        Inl e \<Rightarrow> Inl e
      | Inr toolArgs \<Rightarrow>
          (case callTool (mcpClient env iteration j) toolName toolArgs of
             Inr result \<Rightarrow>
               Inr (Tool (tc_id toolCall) (tool_result_text (JSON_stringify env) toolName result))
           | Inl error \<Rightarrow>
               Inr (Tool (tc_id toolCall) (js ''Error: '' @ error_message error))))"

text \<open>The \<^verbatim>\<open>for\<close> loop over the tool calls of one assistant message, in order.\<close>

fun handleToolCalls ::
  "services \<Rightarrow> nat \<Rightarrow> nat \<Rightarrow> ToolCall list \<Rightarrow> message list \<Rightarrow> js_error + message list" where
  "handleToolCalls env iteration j [] messages = Inr messages"
| "handleToolCalls env iteration j (toolCall # rest) messages =
     (case handleToolCall env iteration j toolCall of
        Inl e \<Rightarrow> Inl e
      | Inr m \<Rightarrow> handleToolCalls env iteration (Suc j) rest (messages @ [m]))"

subsection \<open>The loop\<close>

text \<open>
  What one round sends: the conversation at the head of the loop (\<open>history\<close>) and the
  list passed to the reasoning service after the pruning step (\<open>sent\<close>).
\<close>

record round =
  history :: "message list"
  sent :: "message list"

text \<open>
  The \<^verbatim>\<open>while (iteration < maxIterations)\<close> loop and the \<^verbatim>\<open>throw\<close> after it. The result
  is the list of rounds that called the reasoning service, in order, with what
  \<open>summarizeRepo\<close> returns (\<open>Inr\<close>) or throws (\<open>Inl\<close>).
\<close>

function agent_loop ::
  "services \<Rightarrow> jsstring \<Rightarrow> jsstring \<Rightarrow> nat \<Rightarrow> message list
     \<Rightarrow> round list \<times> (js_error + RepoSummary)" where
  "agent_loop env owner' repo iteration messages =
     (if iteration < maxIterations then
        (let pruned = budgetConversation messages;
             this_round = \<lparr>history = messages, sent = pruned\<rparr>
         in case create env iteration pruned of
              Rejected e \<Rightarrow> ([this_round], Inl e)
            | Choices None \<Rightarrow> ([this_round], Inl (Error (js ''No response from OpenAI'')))
            | Choices (Some message) \<Rightarrow>
                if tool_calls message = [] then
                  ([this_round],
                   parseSummaryFromMessage
                     (case message_content message of Some c \<Rightarrow> c | None \<Rightarrow> []) owner' repo)
                else
                  (case handleToolCalls env iteration 0 (tool_calls message)
                          (pruned @ [Assistant message]) of
                     Inl e \<Rightarrow> ([this_round], Inl e)
                   | Inr messages' \<Rightarrow>
                       (case agent_loop env owner' repo (iteration + 1) messages' of
                          (rounds, outcome) \<Rightarrow> (this_round # rounds, outcome))))
      else ([], Inl (Error (js ''Max iterations reached while processing repo summary''))))"
  by pat_completeness auto
termination
  by (relation "measure (\<lambda>(env, owner', repo, iteration, messages). maxIterations - iteration)")
    auto

declare agent_loop.simps [simp del]

definition summarizeRepo ::
  "services \<Rightarrow> jsstring \<Rightarrow> jsstring \<Rightarrow> Date \<Rightarrow> Date \<Rightarrow> round list \<times> (js_error + RepoSummary)" where
  "summarizeRepo env owner' repo startDate endDate =
     (let systemPrompt = buildSystemPrompt (format_date env) owner' repo startDate endDate;
          userPrompt = buildUserPrompt (format_date env) owner' repo startDate endDate
      in agent_loop env owner' repo 0 [System systemPrompt, User userPrompt])"

section \<open>Predicates of the statements\<close>

subsection \<open>Tool calls and their results\<close>

text \<open>
  A message answers a tool call when it is a tool message with the call's id. A message
  list is \<open>answered\<close> when every assistant message in it is followed at once by one
  answering tool message per tool call, in the order of the calls, and by no further
  tool message.
\<close>

fun answers :: "ToolCall \<Rightarrow> message \<Rightarrow> bool" where
  "answers tc (Tool i _) = (i = tc_id tc)"
| "answers tc _ = False"

fun is_tool :: "message \<Rightarrow> bool" where
  "is_tool (Tool _ _) = True"
| "is_tool _ = False"

fun is_system :: "message \<Rightarrow> bool" where
  "is_system (System _) = True"
| "is_system _ = False"

fun answered :: "message list \<Rightarrow> bool" where
  "answered [] = True"
| "answered (Assistant a # ms) =
     (list_all2 answers (tool_calls a) (take (length (tool_calls a)) ms)
      \<and> (case drop (length (tool_calls a)) ms of [] \<Rightarrow> True | m # _ \<Rightarrow> \<not> is_tool m)
      \<and> answered ms)"
| "answered (_ # ms) = answered ms"

text \<open>
  The conversation the loop keeps: it starts with the system prompt and is answered.
\<close>


definition well_formed :: "message list \<Rightarrow> bool" where
  "well_formed ms \<longleftrightarrow> (case ms of [] \<Rightarrow> False | m # _ \<Rightarrow> is_system m) \<and> answered ms"

subsection \<open>States of the parser inside an object\<close>

text \<open>
  The states the automaton is in after an opening brace at the very start of the text:
  the outermost open container is an object.
\<close>

definition bottom_obj :: "frame list \<Rightarrow> bool" where
  "bottom_obj stk \<longleftrightarrow> stk \<noteq> [] \<and> (case last stk of ObjF _ _ \<Rightarrow> True | ArrF _ \<Rightarrow> False)"

fun in_object :: "pstate \<Rightarrow> bool" where
  "in_object (ExpValue stk) = bottom_obj stk"
| "in_object (ExpValueOrClose stk) = bottom_obj stk"
| "in_object (ExpKeyOrClose stk) = (stk = [] \<or> bottom_obj stk)"
| "in_object (ExpKey ms stk) = (stk = [] \<or> bottom_obj stk)"
| "in_object (ExpColon ms k stk) = (stk = [] \<or> bottom_obj stk)"
| "in_object (AfterElement es stk) = bottom_obj stk"
| "in_object (AfterMember ms stk) = (stk = [] \<or> bottom_obj stk)"
| "in_object (Done v) = (case v of JObject _ \<Rightarrow> True | _ \<Rightarrow> False)"

subsection \<open>Argument payloads\<close>

text \<open>The argument payload of a tool call decodes when \<open>JSON.parse\<close> accepts it.\<close>

definition arguments_decode :: "ToolCall \<Rightarrow> bool" where
  "arguments_decode tc \<longleftrightarrow>
     (case JSON_parse (argument_payload tc) of Inr _ \<Rightarrow> True | Inl _ \<Rightarrow> False)"

section \<open>Example conversations\<close>

text \<open>
  Collaborators for the concrete runs below. A scripted reasoning service answers round
  \<open>i\<close> with a fixed assistant message whatever it is sent; the capability host answers
  every call with one text segment; the serializer is not reached in these runs.
\<close>

definition list_commits_call :: "jsstring \<Rightarrow> jsstring \<Rightarrow> ToolCall" where
  "list_commits_call i payload =
     \<lparr>tc_id = i, tc_name = js ''mcp_GitHub_list_commits'', tc_arguments = payload\<rparr>"

definition text_result :: "jsstring \<Rightarrow> sdk_client" where
  "text_result t =
     (\<lambda>name args.
        Inr \<lparr>result_content =
               Some [[(js ''type'', JString (js ''text'')), (js ''text'', JString t)]],
             result_isError = False\<rparr>)"

definition scripted :: "(nat \<Rightarrow> ChatCompletionMessage) \<Rightarrow> sdk_client option \<Rightarrow> services" where
  "scripted replies sdk =
     \<lparr>create = (\<lambda>i msgs. Choices (Some (replies i))),
      mcpClient = (\<lambda>i j. \<lparr>client = sdk\<rparr>),
      JSON_stringify = (\<lambda>v. js ''[]''),
      format_date = (\<lambda>d. if d = 0 then js ''2024-01-08'' else js ''2024-01-15'')\<rparr>"

text \<open>
  One tool call in the first round, then a final message whose payload also carries an
  \<open>owner\<close> member.
\<close>

definition one_call_then_done :: services where
  \<open>one_call_then_done =
     scripted
       (\<lambda>i. if i = 0
            then \<lparr>message_content = None, tool_calls = [list_commits_call (js ''call_1'') (js ''{}'')]\<rparr>
            else \<lparr>message_content = Some (js ''{"overallSummary":"Two fixes","owner":"evil"}''),
                  tool_calls = []\<rparr>)
       (Some (text_result (js ''[]'')))\<close>

text \<open>
  Six tool calls in the first round, each answered with a listing of 16000 code units
  (4000 estimated tokens, under the per-result ceiling), then a final message.
\<close>

definition long_listing :: jsstring where
  "long_listing = replicate 16000 (of_char CHR ''x'')"

definition six_calls_then_done :: services where
  "six_calls_then_done =
     scripted
       (\<lambda>i. if i = 0
            then \<lparr>message_content = None,
                  tool_calls =
                    [list_commits_call (js ''call_1'') (js ''{}''),
                     list_commits_call (js ''call_2'') (js ''{}''),
                     list_commits_call (js ''call_3'') (js ''{}''),
                     list_commits_call (js ''call_4'') (js ''{}''),
                     list_commits_call (js ''call_5'') (js ''{}''),
                     list_commits_call (js ''call_6'') (js ''{}'')]\<rparr>
            else \<lparr>message_content = Some (js ''Nothing to report.''), tool_calls = []\<rparr>)
       (Some (text_result long_listing))"

text \<open>
  Two tool calls in the first round, each answered with a listing of 50000 code units,
  which the loop cuts to 40000 and the marker, then a final message.
\<close>

definition huge_listing :: jsstring where
  "huge_listing = replicate 50000 (of_char CHR ''x'')"

definition two_big_calls_then_done :: services where
  "two_big_calls_then_done =
     scripted
       (\<lambda>i. if i = 0
            then \<lparr>message_content = None,
                  tool_calls =
                    [list_commits_call (js ''call_1'') (js ''{}''),
                     list_commits_call (js ''call_2'') (js ''{}'')]\<rparr>
            else \<lparr>message_content = Some (js ''Nothing to report.''), tool_calls = []\<rparr>)
       (Some (text_result huge_listing))"

text \<open>
  A service that requests a tool call in every round; the payload of the second round
  is cut off in the middle.
\<close>

definition malformed_second :: services where
  \<open>malformed_second =
     scripted
       (\<lambda>i. \<lparr>message_content = None,
              tool_calls = [list_commits_call (js ''call_1'')
                              (if i = 0 then js ''{}'' else js ''{"owner":'')]\<rparr>)
       (Some (text_result (js ''[]'')))\<close>

text \<open>A service whose first tool call already carries a payload that is cut off.\<close>

definition malformed_first :: services where
  \<open>malformed_first =
     scripted
       (\<lambda>i. \<lparr>message_content = None,
              tool_calls = [list_commits_call (js ''call_1'') (js ''{"owner":"acme",'')]\<rparr>)
       (Some (text_result (js ''[]'')))\<close>


text \<open>
  A capability host that fails the tool run and says so in the envelope it returns.
\<close>

definition not_found_envelope :: CallToolResult where
  "not_found_envelope =
     \<lparr>result_content =
        Some [[(js ''type'', JString (js ''text'')),
               (js ''text'', JString (js ''failed to get pull request: 404 Not Found''))]],
      result_isError = True\<rparr>"

definition not_found_client :: sdk_client where
  "not_found_client = (\<lambda>name args. Inr not_found_envelope)"

section \<open>Properties of the Token Budgeter\<close>

lemma js_Nil: "js [] = []"
  by (simp add: js_def)

lemma js_Cons: "js (c # cs) = of_char c # js cs"
  by (simp add: js_def)

lemma length_js: "length (js s) = length s"
  by (simp add: js_def)

lemma length_truncation_marker: "length truncation_marker = 43"
  by (simp add: truncation_marker_def length_js)

lemma estimate_le_iff: "int (estimateTokens text) \<le> b \<longleftrightarrow> int (length text) \<le> 4 * b"
  unfolding estimateTokens_def by linarith

subsection \<open>What \<open>truncateContent\<close> returns\<close>

text \<open>
  C5 (as amended). \<open>truncateContent\<close> is a total function of the text and the budget:
  it returns the text unchanged when \<open>estimateTokens text \<le> maxTokens\<close>, and otherwise
  the first \<open>4 * maxTokens\<close> code units of the text followed by the truncation marker.
  The cut part is never longer than the text; the result as a whole is at most the
  marker's 43 code units longer than the text.
\<close>

theorem truncateContent_result:
  "truncateContent text maxTokens =
     (if int (estimateTokens text) \<le> maxTokens then text
      else take (nat (maxTokens * 4)) text @ truncation_marker)
   \<and> length (take (nat (maxTokens * 4)) text) \<le> length text
   \<and> length (truncateContent text maxTokens) \<le> length text + 43"
  by (simp add: truncateContent_def Let_def length_truncation_marker)

text \<open>
  C5 as stated fails: the five code units \<^verbatim>\<open>abcde\<close> are two estimated tokens, so a
  budget of one token cuts them to \<^verbatim>\<open>abcd\<close> and appends the marker; the result has
  47 code units, more than the original 5.
\<close>

theorem truncateContent_longer_counterexample:
  "\<not> length (truncateContent (js ''abcde'') 1) \<le> length (js ''abcde'')"
  by (simp add: truncateContent_def Let_def length_truncation_marker estimateTokens_def length_js)

subsection \<open>Truncating twice\<close>

lemma truncateContent_cut_again:
  assumes "\<not> int (estimateTokens t) \<le> b"
  shows "truncateContent (take (nat (b * 4)) t @ truncation_marker) b
           = take (nat (b * 4)) t @ truncation_marker"
proof -
  from assms have len: "4 * b < int (length t)"
    by (simp add: estimate_le_iff)
  let ?r = "take (nat (b * 4)) t @ truncation_marker"
  have keep: "length (take (nat (b * 4)) t) = nat (b * 4)"
    using len by simp
  have "4 * b < int (length ?r)"
    using keep by (simp add: length_truncation_marker)
  then have again: "\<not> int (estimateTokens ?r) \<le> b"
    by (simp add: estimate_le_iff)
  have "take (nat (b * 4)) ?r = take (nat (b * 4)) t"
    using keep by simp
  with again show ?thesis
    by (simp add: truncateContent_def Let_def)
qed

text \<open>
  C6. \<open>truncateContent\<close> is idempotent: a text that was cut keeps its first
  \<open>4 * b\<close> code units, still exceeds the budget because of the marker, and is cut to
  the same prefix with the same marker again.
\<close>

theorem truncateContent_idempotent:
  "truncateContent (truncateContent t b) b = truncateContent t b"
proof (cases "int (estimateTokens t) \<le> b")
  case True
  then show ?thesis by (simp add: truncateContent_def)
next
  case False
  then have "truncateContent t b = take (nat (b * 4)) t @ truncation_marker"
    by (simp add: truncateContent_def Let_def)
  with truncateContent_cut_again [OF False] show ?thesis by simp
qed

section \<open>Properties of the extractor, the adapter and the loop\<close>


subsection \<open>The matched span\<close>

lemma jsonMatch_span:
  assumes "jsonMatch text = Some m"
  shows "\<exists>pre post. text = pre @ m @ post
           \<and> of_char CHR ''{'' \<notin> set pre \<and> of_char CHR ''}'' \<notin> set post
           \<and> m \<noteq> [] \<and> hd m = of_char CHR ''{'' \<and> last m = of_char CHR ''}''"
proof -
  let ?open = "\<lambda>c::nat. c \<noteq> of_char CHR ''{''"
  let ?close = "\<lambda>c::nat. c \<noteq> of_char CHR ''}''"
  let ?fb = "dropWhile ?open text"
  let ?pre = "takeWhile ?open text"
  let ?post = "rev (takeWhile ?close (rev ?fb))"
  from assms have m: "m = rev (dropWhile ?close (rev ?fb))" and ne: "m \<noteq> []"
    by (auto simp: jsonMatch_def Let_def split: if_splits)
  have "rev (dropWhile ?close (rev ?fb)) @ rev (takeWhile ?close (rev ?fb))
          = rev (takeWhile ?close (rev ?fb) @ dropWhile ?close (rev ?fb))"
    by (simp only: rev_append)
  also have "\<dots> = ?fb"
    by simp
  finally have fb: "?fb = m @ ?post"
    using m by simp
  have whole: "text = ?pre @ m @ ?post"
    using fb takeWhile_dropWhile_id [of ?open "text"] by simp
  have pre: "of_char CHR ''{'' \<notin> set ?pre"
    by (auto dest: set_takeWhileD)
  have post: "of_char CHR ''}'' \<notin> set ?post"
    by (auto dest: set_takeWhileD)
  from ne m have dne: "dropWhile ?close (rev ?fb) \<noteq> []"
    by simp
  then have "hd (dropWhile ?close (rev ?fb)) = of_char CHR ''}''"
    using hd_dropWhile [of ?close "rev ?fb"] by simp
  then have lastm: "last m = of_char CHR ''}''"
    using m dne by (simp add: last_rev)
  from fb ne have fbne: "?fb \<noteq> []"
    by (metis Nil_is_append_conv)
  then have "hd ?fb = of_char CHR ''{''"
    using hd_dropWhile [of ?open "text"] by simp
  moreover from fb ne have "hd ?fb = hd m"
    by (metis hd_append2)
  ultimately have hdm: "hd m = of_char CHR ''{''"
    by simp
  from whole pre post ne hdm lastm show ?thesis
    by blast
qed

subsection \<open>A text that starts with a brace decodes to an object\<close>

lemma bottom_obj_Nil [simp]: "\<not> bottom_obj []"
  by (simp add: bottom_obj_def)

lemma bottom_obj_Cons: "bottom_obj (f # stk) \<longleftrightarrow> (if stk = [] then (case f of ObjF _ _ \<Rightarrow> True | ArrF _ \<Rightarrow> False) else bottom_obj stk)"
  by (simp add: bottom_obj_def)

lemma in_object_reduce: "bottom_obj stk \<Longrightarrow> in_object (reduce v stk)"
  by (cases "(v, stk)" rule: reduce.cases) (auto simp: bottom_obj_Cons split: if_splits)

lemma in_object_reduce_obj: "stk = [] \<or> bottom_obj stk \<Longrightarrow> in_object (reduce (JObject ms) stk)"
  by (cases stk) (auto simp: in_object_reduce)

lemma in_object_begin_value:
  "bottom_obj stk \<Longrightarrow> begin_value t stk = Some st \<Longrightarrow> in_object st"
  by (cases "(t, stk)" rule: begin_value.cases) (auto simp: in_object_reduce)

lemma in_object_step:
  assumes "in_object st" and "step st t = Some st'"
  shows "in_object st'"
proof (cases st)
  case (ExpValue stk)
  with assms show ?thesis by (auto dest: in_object_begin_value)
next
  case (ExpValueOrClose stk)
  with assms show ?thesis
    by (cases t) (auto simp: in_object_reduce bottom_obj_Cons dest!: in_object_begin_value [rotated])
next
  case (ExpKeyOrClose stk)
  with assms show ?thesis
    by (cases t) (auto simp: in_object_reduce_obj)
next
  case (ExpKey ms stk)
  with assms show ?thesis by (cases t) auto
next
  case (ExpColon ms k stk)
  with assms show ?thesis by (cases t) (auto simp: bottom_obj_Cons)
next
  case (AfterElement es stk)
  with assms show ?thesis by (cases t) (auto simp: bottom_obj_Cons in_object_reduce)
next
  case (AfterMember ms stk)
  with assms show ?thesis by (cases t) (auto simp: in_object_reduce_obj)
next
  case (Done v)
  with assms show ?thesis by simp
qed

lemma in_object_run: "in_object st \<Longrightarrow> run st ts = Some st' \<Longrightarrow> in_object st'"
proof (induction ts arbitrary: st)
  case Nil
  then show ?case by simp
next
  case (Cons t ts)
  then show ?case
    by (auto split: option.splits dest: in_object_step)
qed

lemma JSON_parse_brace_object:
  assumes "hd m = of_char CHR ''{''" and "m \<noteq> []" and "JSON_parse m = Inr v"
  shows "\<exists>ms. v = JObject ms"
proof -
  from assms(1,2) obtain rest where m: "m = of_char CHR ''{'' # rest"
    by (cases m) auto
  from assms(3) obtain ts where l: "lex m = Some ts" and r: "run (ExpValue []) ts = Some (Done v)"
    by (auto simp: JSON_parse_def split: option.splits pstate.splits)
  from l m obtain ts' where ts: "ts = TLBrace # ts'"
    by (auto simp: is_whitespace_def)
  with r have "run (ExpKeyOrClose []) ts' = Some (Done v)"
    by simp
  then have "in_object (Done v)"
    by (rule in_object_run [rotated]) simp
  then show ?thesis
    by (cases v) auto
qed

subsection \<open>The extractor\<close>

lemma parseSummaryFromMessage_fields:
  "parseSummaryFromMessage text owner' repo = Inr summary \<Longrightarrow>
     owner summary = owner' \<and> repoName summary = repo"
  by (auto simp: parseSummaryFromMessage_def decode_payload_def
      split: option.splits sum.splits)

text \<open>
  C7. \<open>parseSummaryFromMessage\<close> always returns a summary and never throws. When the
  text has no brace-delimited span, or the span does not decode, the summary is the
  degraded one: its \<open>overallSummary\<close> is the raw text (the placeholder for the empty
  text) and both lists are empty.
\<close>

theorem parseSummaryFromMessage_total_fallback:
  "(\<exists>summary. parseSummaryFromMessage text owner' repo = Inr summary)
   \<and> (jsonMatch text = None \<or> (\<exists>m e. jsonMatch text = Some m \<and> JSON_parse m = Inl e)
        \<longrightarrow> parseSummaryFromMessage text owner' repo =
              Inr \<lparr>repoName = repo, owner = owner',
                   overallSummary = JString (if text = [] then no_summary else text),
                   pullRequests = JArray [], breakingChanges = JArray []\<rparr>)"
  by (auto simp: parseSummaryFromMessage_def decode_payload_def
      split: option.splits sum.splits)

text \<open>
  The theorem at three texts: one without braces, one whose span is not JSON, and the
  empty text.
\<close>

theorem parseSummaryFromMessage_total_fallback_witness:
  \<open>jsonMatch (js ''No pull requests were merged.'') = None
   \<and> parseSummaryFromMessage (js ''No pull requests were merged.'') (js ''acme'') (js ''api'') =
       Inr \<lparr>repoName = js ''api'', owner = js ''acme'',
            overallSummary = JString (js ''No pull requests were merged.''),
            pullRequests = JArray [], breakingChanges = JArray []\<rparr>
   \<and> jsonMatch (js ''Summary: {pending}'') = Some (js ''{pending}'')
   \<and> JSON_parse (js ''{pending}'') = Inl SyntaxError
   \<and> parseSummaryFromMessage (js ''Summary: {pending}'') (js ''acme'') (js ''api'') =
       Inr \<lparr>repoName = js ''api'', owner = js ''acme'',
            overallSummary = JString (js ''Summary: {pending}''),
            pullRequests = JArray [], breakingChanges = JArray []\<rparr>
   \<and> parseSummaryFromMessage [] (js ''acme'') (js ''api'') =
       Inr \<lparr>repoName = js ''api'', owner = js ''acme'',
            overallSummary = JString (js ''No summary provided''),
            pullRequests = JArray [], breakingChanges = JArray []\<rparr>\<close>
proof -
  have plain: "jsonMatch (js ''No pull requests were merged.'') = None"
    by (simp add: jsonMatch_def js_Cons js_Nil)
  have span: "jsonMatch (js ''Summary: {pending}'') = Some (js ''{pending}'')"
    by (simp add: jsonMatch_def js_Cons js_Nil)
  have bad: "JSON_parse (js ''{pending}'') = Inl SyntaxError"
    by (simp add: JSON_parse_def js_Cons js_Nil is_whitespace_def is_digit_def)
  have empty: "jsonMatch [] = None"
    by (simp add: jsonMatch_def)
  have ne: "js ''No pull requests were merged.'' \<noteq> []" "js ''Summary: {pending}'' \<noteq> []"
    by (simp_all add: js_Cons)
  from parseSummaryFromMessage_total_fallback
         [of "js ''No pull requests were merged.''" "js ''acme''" "js ''api''"]
       parseSummaryFromMessage_total_fallback
         [of "js ''Summary: {pending}''" "js ''acme''" "js ''api''"]
       parseSummaryFromMessage_total_fallback [of "[]" "js ''acme''" "js ''api''"]
       plain span bad empty ne
  show ?thesis
    by (simp add: no_summary_def)
qed

text \<open>
  Conversely, a span that starts with the first \<^verbatim>\<open>{\<close> of the text and ends with its last
  \<^verbatim>\<open>}\<close> is what the regular expression matches.
\<close>

lemma jsonMatch_of_span:
  assumes "of_char CHR ''{'' \<notin> set pre" and "of_char CHR ''}'' \<notin> set post"
    and "m \<noteq> []" and "hd m = of_char CHR ''{''" and "last m = of_char CHR ''}''"
  shows "jsonMatch (pre @ m @ post) = Some m"
proof -
  let ?open = "\<lambda>c::nat. c \<noteq> of_char CHR ''{''"
  let ?close = "\<lambda>c::nat. c \<noteq> of_char CHR ''}''"
  from assms(3,4) obtain m' where m: "m = of_char CHR ''{'' # m'"
    by (cases m) auto
  from assms(1) have "dropWhile ?open (pre @ m @ post) = dropWhile ?open (m @ post)"
    by (intro dropWhile_append2) auto
  also have "\<dots> = m @ post"
    by (simp add: m)
  finally have from_brace: "dropWhile ?open (pre @ m @ post) = m @ post" .
  from assms(3,5) obtain b where mb: "m = b @ [of_char CHR ''}'']"
    by (metis append_butlast_last_id)
  have keep: "dropWhile ?close (rev m) = rev m"
    by (simp add: mb)
  have "dropWhile ?close (rev (m @ post)) = dropWhile ?close (rev post @ rev m)"
    by simp
  also from assms(2) have "\<dots> = dropWhile ?close (rev m)"
    by (intro dropWhile_append2) auto
  finally have to_brace: "rev (dropWhile ?close (rev (m @ post))) = m"
    using keep by simp
  from assms(3) show ?thesis
    unfolding jsonMatch_def Let_def from_brace to_brace by simp
qed

text \<open>
  C8 (as amended). The extractor works on the span \<open>m\<close> from the first \<^verbatim>\<open>{\<close> of the text
  to its last \<^verbatim>\<open>}\<close>. When that span decodes, the decoded value is an object and the
  summary carries the owner and repository of the call, the payload's \<open>overallSummary\<close>,
  \<open>pullRequests\<close> and \<open>breakingChanges\<close>, and for a member that is missing (or falsy)
  the placeholder \<^verbatim>\<open>No summary provided\<close> and the empty list. When that span does not
  decode, the summary is the degraded one with the raw text.
\<close>

theorem parseSummaryFromMessage_decodes:
  assumes "of_char CHR ''{'' \<notin> set pre" and "of_char CHR ''}'' \<notin> set post"
    and "m \<noteq> []" and "hd m = of_char CHR ''{''" and "last m = of_char CHR ''}''"
  shows "(\<forall>parsed. JSON_parse m = Inr parsed \<longrightarrow>
            (\<exists>ms summary.
               parsed = JObject ms
               \<and> parseSummaryFromMessage (pre @ m @ post) owner' repo = Inr summary
               \<and> repoName summary = repo \<and> owner summary = owner'
               \<and> overallSummary summary
                    = or_else (map_of ms (js ''overallSummary''))
                        (JString (js ''No summary provided''))
               \<and> pullRequests summary = or_else (map_of ms (js ''pullRequests'')) (JArray [])
               \<and> breakingChanges summary
                    = or_else (map_of ms (js ''breakingChanges'')) (JArray [])))
         \<and> or_else None (JString (js ''No summary provided'')) = JString (js ''No summary provided'')
         \<and> or_else None (JArray []) = JArray []
         \<and> (\<forall>e. JSON_parse m = Inl e \<longrightarrow>
               parseSummaryFromMessage (pre @ m @ post) owner' repo
                 = Inr \<lparr>repoName = repo, owner = owner',
                        overallSummary = JString (pre @ m @ post),
                        pullRequests = JArray [], breakingChanges = JArray []\<rparr>)"
proof -
  let ?text = "pre @ m @ post"
  have span: "jsonMatch ?text = Some m"
    using assms by (rule jsonMatch_of_span)
  have decoded: "\<exists>ms summary.
               parsed = JObject ms
               \<and> parseSummaryFromMessage ?text owner' repo = Inr summary
               \<and> repoName summary = repo \<and> owner summary = owner'
               \<and> overallSummary summary
                    = or_else (map_of ms (js ''overallSummary''))
                        (JString (js ''No summary provided''))
               \<and> pullRequests summary = or_else (map_of ms (js ''pullRequests'')) (JArray [])
               \<and> breakingChanges summary
                    = or_else (map_of ms (js ''breakingChanges'')) (JArray [])"
    if parsed: "JSON_parse m = Inr parsed" for parsed
  proof -
    from JSON_parse_brace_object [OF assms(4) assms(3) parsed] obtain ms
      where obj: "parsed = JObject ms"
      by blast
    let ?summary = "\<lparr>repoName = repo, owner = owner',
      overallSummary = or_else (map_of ms (js ''overallSummary'')) (JString no_summary),
      pullRequests = or_else (map_of ms (js ''pullRequests'')) (JArray []),
      breakingChanges = or_else (map_of ms (js ''breakingChanges'')) (JArray [])\<rparr>"
    from span parsed obj have "parseSummaryFromMessage ?text owner' repo = Inr ?summary"
      by (simp add: parseSummaryFromMessage_def decode_payload_def)
    with obj show ?thesis
      by (simp add: no_summary_def)
  qed
  have degraded: "parseSummaryFromMessage ?text owner' repo
                 = Inr \<lparr>repoName = repo, owner = owner',
                        overallSummary = JString ?text,
                        pullRequests = JArray [], breakingChanges = JArray []\<rparr>"
    if "JSON_parse m = Inl e" for e
    using span that assms(3) by (simp add: parseSummaryFromMessage_def decode_payload_def)
  have "or_else None (JString (js ''No summary provided'')) = JString (js ''No summary provided'')"
    "or_else None (JArray []) = JArray []"
    by (simp_all add: or_else_def)
  with decoded degraded show ?thesis
    by blast
qed

text \<open>
  The theorem at a text with one payload between two sentences, and at the text of two
  payloads in a row, whose span does not decode.
\<close>

theorem parseSummaryFromMessage_decodes_witness:
  \<open>JSON_parse (js ''{"overallSummary":"Two fixes","pullRequests":[]}'')
     = Inr (JObject [(js ''overallSummary'', JString (js ''Two fixes'')),
                     (js ''pullRequests'', JArray [])])
   \<and> (\<exists>summary.
         parseSummaryFromMessage
           (js ''Summary: '' @ js ''{"overallSummary":"Two fixes","pullRequests":[]}'' @ js '' Bye.'')
           (js ''acme'') (js ''api'') = Inr summary
         \<and> repoName summary = js ''api'' \<and> owner summary = js ''acme''
         \<and> overallSummary summary = JString (js ''Two fixes'')
         \<and> pullRequests summary = JArray []
         \<and> breakingChanges summary = JArray [])
   \<and> JSON_parse (js ''{"overallSummary":"x"} {}'') = Inl SyntaxError
   \<and> parseSummaryFromMessage ([] @ js ''{"overallSummary":"x"} {}'' @ []) (js ''acme'') (js ''api'')
       = Inr \<lparr>repoName = js ''api'', owner = js ''acme'',
              overallSummary = JString ([] @ js ''{"overallSummary":"x"} {}'' @ []),
              pullRequests = JArray [], breakingChanges = JArray []\<rparr>\<close>
proof -
  let ?m = \<open>js ''{"overallSummary":"Two fixes","pullRequests":[]}''\<close>
  let ?two = \<open>js ''{"overallSummary":"x"} {}''\<close>
  have parsed: "JSON_parse ?m
     = Inr (JObject [(js ''overallSummary'', JString (js ''Two fixes'')),
                     (js ''pullRequests'', JArray [])])"
    by (simp add: JSON_parse_def js_Cons js_Nil is_whitespace_def is_digit_def)
  have bad: "JSON_parse ?two = Inl SyntaxError"
    by (simp add: JSON_parse_def js_Cons js_Nil is_whitespace_def is_digit_def)
  have span: "of_char CHR ''{'' \<notin> set (js ''Summary: '')" "of_char CHR ''}'' \<notin> set (js '' Bye.'')"
    "?m \<noteq> []" "hd ?m = of_char CHR ''{''" "last ?m = of_char CHR ''}''"
    by (simp_all add: js_Cons js_Nil)
  have span2: "of_char CHR ''{'' \<notin> set []" "of_char CHR ''}'' \<notin> set []"
    "?two \<noteq> []" "hd ?two = of_char CHR ''{''" "last ?two = of_char CHR ''}''"
    by (simp_all add: js_Cons js_Nil)
  from parseSummaryFromMessage_decodes [OF span, of "js ''acme''" "js ''api''"] parsed
  obtain ms summary where
    "JObject [(js ''overallSummary'', JString (js ''Two fixes'')), (js ''pullRequests'', JArray [])]
       = JObject ms"
    "parseSummaryFromMessage (js ''Summary: '' @ ?m @ js '' Bye.'') (js ''acme'') (js ''api'')
       = Inr summary"
    "repoName summary = js ''api''" "owner summary = js ''acme''"
    "overallSummary summary
       = or_else (map_of ms (js ''overallSummary'')) (JString (js ''No summary provided''))"
    "pullRequests summary = or_else (map_of ms (js ''pullRequests'')) (JArray [])"
    "breakingChanges summary = or_else (map_of ms (js ''breakingChanges'')) (JArray [])"
    by blast
  then have first:
    "\<exists>summary. parseSummaryFromMessage (js ''Summary: '' @ ?m @ js '' Bye.'') (js ''acme'') (js ''api'')
       = Inr summary
     \<and> repoName summary = js ''api'' \<and> owner summary = js ''acme''
     \<and> overallSummary summary = JString (js ''Two fixes'')
     \<and> pullRequests summary = JArray []
     \<and> breakingChanges summary = JArray []"
    by (auto simp: or_else_def js_Cons js_Nil)
  from parseSummaryFromMessage_decodes [OF span2, of "js ''acme''" "js ''api''"] bad
  have second: "parseSummaryFromMessage ([] @ ?two @ []) (js ''acme'') (js ''api'')
       = Inr \<lparr>repoName = js ''api'', owner = js ''acme'',
              overallSummary = JString ([] @ ?two @ []),
              pullRequests = JArray [], breakingChanges = JArray []\<rparr>"
    by blast
  from parsed first bad second show ?thesis
    by blast
qed

text \<open>
  C8 as stated fails. In \<^verbatim>\<open>{"overallSummary":"x"} {}\<close> the first brace-matched substring
  is the well-formed payload \<^verbatim>\<open>{"overallSummary":"x"}\<close>, but the span the extractor
  decodes is the whole text, which is not JSON: the result is the fallback with the raw
  text, not the summary \<^verbatim>\<open>x\<close>.
\<close>

theorem parseSummaryFromMessage_greedy_counterexample:
  \<open>jsonMatch (js ''{"overallSummary":"x"} {}'') = Some (js ''{"overallSummary":"x"} {}'')
   \<and> JSON_parse (js ''{"overallSummary":"x"}'')
       = Inr (JObject [(js ''overallSummary'', JString (js ''x''))])
   \<and> parseSummaryFromMessage (js ''{"overallSummary":"x"} {}'') (js ''acme'') (js ''api'')
       = Inr \<lparr>repoName = js ''api'', owner = js ''acme'',
              overallSummary = JString (js ''{"overallSummary":"x"} {}''),
              pullRequests = JArray [], breakingChanges = JArray []\<rparr>
   \<and> \<not> (\<exists>summary.
           parseSummaryFromMessage (js ''{"overallSummary":"x"} {}'') (js ''acme'') (js ''api'')
             = Inr summary
           \<and> overallSummary summary = JString (js ''x''))\<close>
  by (simp add: parseSummaryFromMessage_def decode_payload_def jsonMatch_def JSON_parse_def
      js_Cons js_Nil is_whitespace_def is_digit_def)

subsection \<open>The adapter\<close>

text \<open>
  What \<open>callTool\<close> does hold to: without a client the guard throws; with a client nothing
  is thrown, and a call of the SDK that throws comes back as an envelope with \<open>isError\<close>
  set and the single text segment \<^verbatim>\<open>Error calling tool <name>: <message\<close>>.
\<close>

lemma callTool_unconnected:
  "client this = None \<Longrightarrow>
     callTool this toolName args = Inl (Error (js ''MCP client not connected''))"
  by (simp add: callTool_def)

lemma callTool_connected:
  assumes "client this = Some sdk"
  shows "\<exists>result. callTool this toolName args = Inr result
           \<and> (\<forall>m. sdk (fst (mapToolNameAndArgs toolName args))
                       (JObject (snd (mapToolNameAndArgs toolName args))) = Inl m
                 \<longrightarrow> isError result
                    \<and> content result =
                        [[(js ''type'', JString (js ''text'')),
                          (js ''text'',
                           JString (js ''Error calling tool '' @ toolName @ js '': '' @ m))]])"
  using assms by (auto simp: callTool_def split: prod.splits sum.splits)

text \<open>
  C9 at a connected adapter whose host fails the tool run. The host reports the failure
  inside the envelope it returns, with its error flag set. \<open>callTool\<close> reads only the
  content of a returned envelope and sets \<open>isError\<close> to the literal \<^verbatim>\<open>false\<close>: for every
  envelope \<open>r\<close>, tool name and arguments the result is unflagged, and the host-side
  error \<^verbatim>\<open>404 Not Found\<close> of the example comes back with \<open>isError\<close> unset.
\<close>

theorem callTool_drops_host_error_flag:
  "callTool \<lparr>client = Some (\<lambda>name args. Inr r)\<rparr> toolName args
     = Inr \<lparr>content = (case result_content r of Some items \<Rightarrow> items | None \<Rightarrow> []),
            isError = False\<rparr>
   \<and> result_isError not_found_envelope
   \<and> callTool \<lparr>client = Some not_found_client\<rparr> (js ''mcp_GitHub_get_pull_request'')
         (JObject [(js ''owner'', JString (js ''acme'')), (js ''repo'', JString (js ''api'')),
                   (js ''pullNumber'', JNumber 4242)])
     = Inr \<lparr>content =
              [[(js ''type'', JString (js ''text'')),
                (js ''text'', JString (js ''failed to get pull request: 404 Not Found''))]],
            isError = False\<rparr>"
  by (simp add: callTool_def not_found_client_def not_found_envelope_def split: prod.splits)

subsection \<open>Pairing\<close>

lemma answers_is_tool: "answers tc m \<Longrightarrow> is_tool m"
  by (cases m) auto

lemma answered_tools: "list_all is_tool ms \<Longrightarrow> answered ms"
proof (induction ms)
  case Nil
  then show ?case by simp
next
  case (Cons m ms)
  then show ?case by (cases m) auto
qed

lemma list_all2_answers_tools: "list_all2 answers tcs ms \<Longrightarrow> list_all is_tool ms"
  by (induction rule: list_all2_induct) (auto dest: answers_is_tool)

lemma answered_append:
  assumes "answered xs" and "answered ys" and "ys = [] \<or> \<not> is_tool (hd ys)"
  shows "answered (xs @ ys)"
  using assms
proof (induction xs)
  case Nil
  then show ?case by simp
next
  case (Cons x ms)
  show ?case
  proof (cases x)
    case (Assistant a)
    let ?n = "length (tool_calls a)"
    from Cons.prems(1) Assistant
    have all: "list_all2 answers (tool_calls a) (take ?n ms)"
      and nxt: "case drop ?n ms of [] \<Rightarrow> True | m # _ \<Rightarrow> \<not> is_tool m"
      and rest: "answered ms"
      by simp_all
    from list_all2_lengthD [OF all] have "length (take ?n ms) = ?n"
      by simp
    then have le: "?n \<le> length ms"
      by simp
    then have tk: "take ?n (ms @ ys) = take ?n ms"
      and dr: "drop ?n (ms @ ys) = drop ?n ms @ ys"
      by simp_all
    have "case drop ?n ms @ ys of [] \<Rightarrow> True | m # _ \<Rightarrow> \<not> is_tool m"
    proof (cases "drop ?n ms")
      case Nil
      with Cons.prems(3) show ?thesis by (cases ys) auto
    next
      case (Cons m ms')
      with nxt show ?thesis by simp
    qed
    then have a2: "case drop ?n (ms @ ys) of [] \<Rightarrow> True | m # _ \<Rightarrow> \<not> is_tool m"
      by (simp only: dr)
    have a1: "list_all2 answers (tool_calls a) (take ?n (ms @ ys))"
      using all by (simp only: tk)
    have a3: "answered (ms @ ys)"
      using Cons.IH rest Cons.prems(2,3) by simp
    from a1 a2 a3 show ?thesis
      unfolding Assistant append_Cons answered.simps by (intro conjI)
  next
    case (System c)
    with Cons show ?thesis by simp
  next
    case (User c)
    with Cons show ?thesis by simp
  next
    case (Tool i c)
    with Cons show ?thesis by simp
  qed
qed

lemma answered_drop: "answered ms \<Longrightarrow> answered (drop n ms)"
proof (induction n arbitrary: ms)
  case 0
  then show ?case by simp
next
  case (Suc n)
  show ?case
  proof (cases ms)
    case Nil
    then show ?thesis by simp
  next
    case (Cons m ms')
    with Suc.prems have "answered ms'"
      by (cases m) auto
    with Suc.IH Cons show ?thesis by simp
  qed
qed

lemma answered_block:
  assumes "list_all2 answers (tool_calls a) results"
  shows "answered (Assistant a # results)"
proof -
  from list_all2_lengthD [OF assms] have "length results = length (tool_calls a)"
    by simp
  moreover from assms have "answered results"
    by (intro answered_tools list_all2_answers_tools)
  ultimately show ?thesis
    using assms by simp
qed

lemma well_formed_budget: "well_formed ms \<Longrightarrow> well_formed (budgetConversation ms)"
  by (cases ms; cases "hd ms")
    (auto simp: well_formed_def budgetConversation_def slice_last_def
      intro: answered_drop [of "_ # _", simplified])

text \<open>With distinct ids, answering in order means exactly one answer per call.\<close>

lemma answers_count:
  "list_all2 answers tcs results \<Longrightarrow>
     length (filter (answers tc) results) = length (filter (\<lambda>t. tc_id t = tc_id tc) tcs)"
proof (induction rule: list_all2_induct)
  case Nil
  then show ?case by simp
next
  case (Cons t ts m ms)
  from Cons.hyps(1) have "answers tc m \<longleftrightarrow> tc_id t = tc_id tc"
    by (cases m) auto
  with Cons.IH show ?case by simp
qed

lemma distinct_id_once:
  "distinct (map tc_id tcs) \<Longrightarrow> tc \<in> set tcs \<Longrightarrow>
     length (filter (\<lambda>t. tc_id t = tc_id tc) tcs) = 1"
proof (induction tcs)
  case Nil
  then show ?case by simp
next
  case (Cons t ts)
  show ?case
  proof (cases "tc_id t = tc_id tc")
    case True
    have "tc_id u \<noteq> tc_id tc" if "u \<in> set ts" for u
    proof
      assume "tc_id u = tc_id tc"
      with that True have "tc_id t \<in> tc_id ` set ts"
        by (metis imageI)
      with Cons.prems(1) show False
        by simp
    qed
    then have "\<forall>u \<in> set ts. tc_id u \<noteq> tc_id tc"
      by blast
    then have "filter (\<lambda>t. tc_id t = tc_id tc) ts = []"
      by (simp add: filter_empty_conv)
    with True show ?thesis by simp
  next
    case False
    with Cons.prems(2) have "tc \<in> set ts" by auto
    with Cons.IH Cons.prems(1) False show ?thesis by simp
  qed
qed

lemma answers_exactly_one:
  assumes "list_all2 answers tcs results" and "distinct (map tc_id tcs)"
  shows "list_all (\<lambda>tc. length (filter (answers tc) results) = 1) tcs"
  using assms by (simp add: list_all_iff answers_count distinct_id_once)

subsection \<open>The rounds of the loop\<close>

lemma handleToolCall_answers: "handleToolCall env i j tc = Inr m \<Longrightarrow> answers tc m"
  by (auto simp: handleToolCall_def Let_def split: sum.splits)

lemma handleToolCalls_appends:
  "handleToolCalls env i j tcs msgs = Inr msgs' \<Longrightarrow>
     \<exists>results. msgs' = msgs @ results \<and> list_all2 answers tcs results"
proof (induction tcs arbitrary: j msgs)
  case Nil
  then show ?case by simp
next
  case (Cons tc tcs)
  from Cons.prems obtain m where m: "handleToolCall env i j tc = Inr m"
    and rest: "handleToolCalls env i (Suc j) tcs (msgs @ [m]) = Inr msgs'"
    by (auto split: sum.splits)
  from Cons.IH [OF rest] obtain results
    where "msgs' = (msgs @ [m]) @ results" "list_all2 answers tcs results"
    by blast
  with handleToolCall_answers [OF m] have
    "msgs' = msgs @ (m # results) \<and> list_all2 answers (tc # tcs) (m # results)"
    by simp
  then show ?case by blast
qed

lemma agent_loop_done:
  "\<not> i < maxIterations \<Longrightarrow>
     agent_loop env owner' repo i messages
       = ([], Inl (Error (js ''Max iterations reached while processing repo summary'')))"
  by (simp add: agent_loop.simps)

lemma agent_loop_step:
  assumes "i < maxIterations" and "agent_loop env owner' repo i messages = (rounds, outcome)"
  shows "\<exists>rest. rounds = \<lparr>history = messages, sent = budgetConversation messages\<rparr> # rest
           \<and> (rest = []
               \<or> (\<exists>a messages'.
                     create env i (budgetConversation messages) = Choices (Some a)
                     \<and> tool_calls a \<noteq> []
                     \<and> handleToolCalls env i 0 (tool_calls a)
                          (budgetConversation messages @ [Assistant a]) = Inr messages'
                     \<and> agent_loop env owner' repo (Suc i) messages' = (rest, outcome)))"
  using assms
  by (subst (asm) agent_loop.simps)
    (auto simp: Let_def split: completion.splits option.splits if_splits sum.splits prod.splits)

lemma agent_loop_rounds:
  assumes "well_formed messages" and "agent_loop env owner' repo i messages = (rounds, outcome)"
  shows "(\<forall>rd \<in> set rounds. well_formed (history rd) \<and> well_formed (sent rd)
            \<and> sent rd = budgetConversation (history rd))
       \<and> (\<forall>k. Suc k < length rounds \<longrightarrow>
             (\<exists>a results.
                create env (i + k) (sent (rounds ! k)) = Choices (Some a)
                \<and> history (rounds ! Suc k) = sent (rounds ! k) @ Assistant a # results
                \<and> list_all2 answers (tool_calls a) results))"
  using assms
proof (induction "maxIterations - i" arbitrary: i messages rounds outcome)
  case 0
  then have "rounds = []"
    by (simp add: agent_loop_done)
  then show ?case by simp
next
  case (Suc n)
  then have lt: "i < maxIterations"
    by simp
  let ?sent = "budgetConversation messages"
  from agent_loop_step [OF lt Suc.prems(2)] obtain rest
    where rounds: "rounds = \<lparr>history = messages, sent = ?sent\<rparr> # rest"
      and more: "rest = [] \<or> (\<exists>a messages'.
                     create env i ?sent = Choices (Some a)
                     \<and> tool_calls a \<noteq> []
                     \<and> handleToolCalls env i 0 (tool_calls a) (?sent @ [Assistant a]) = Inr messages'
                     \<and> agent_loop env owner' repo (Suc i) messages' = (rest, outcome))"
    by blast
  have wf_sent: "well_formed ?sent"
    using Suc.prems(1) by (rule well_formed_budget)
  show ?case
  proof (cases "rest = []")
    case True
    with rounds Suc.prems(1) wf_sent show ?thesis by simp
  next
    case False
    with more obtain a messages'
      where reply: "create env i ?sent = Choices (Some a)"
        and calls: "handleToolCalls env i 0 (tool_calls a) (?sent @ [Assistant a]) = Inr messages'"
        and loop: "agent_loop env owner' repo (Suc i) messages' = (rest, outcome)"
      by blast
    from handleToolCalls_appends [OF calls] obtain results
      where msgs': "messages' = ?sent @ Assistant a # results"
        and ans: "list_all2 answers (tool_calls a) results"
      by auto
    have "answered (?sent @ Assistant a # results)"
      using wf_sent answered_block [OF ans] by (intro answered_append) (auto simp: well_formed_def)
    with wf_sent msgs' have wf': "well_formed messages'"
      by (cases ?sent) (auto simp: well_formed_def)
    from Suc.hyps(2) lt have n: "n = maxIterations - Suc i"
      by simp
    note IH = Suc.hyps(1) [OF n wf' loop]
    from False loop have "Suc i < maxIterations"
      by (auto simp: agent_loop_done intro: ccontr)
    from agent_loop_step [OF this loop] have hd_rest: "history (hd rest) = messages'"
      by auto
    have first: "\<forall>rd \<in> set rounds. well_formed (history rd) \<and> well_formed (sent rd)
            \<and> sent rd = budgetConversation (history rd)"
      using IH rounds Suc.prems(1) wf_sent by auto
    have second: "\<exists>a results.
                create env (i + k) (sent (rounds ! k)) = Choices (Some a)
                \<and> history (rounds ! Suc k) = sent (rounds ! k) @ Assistant a # results
                \<and> list_all2 answers (tool_calls a) results"
      if k: "Suc k < length rounds" for k
    proof (cases k)
      case 0
      from False have "rest ! 0 = hd rest"
        by (simp add: hd_conv_nth)
      with 0 rounds reply hd_rest msgs' ans show ?thesis
        by auto
    next
      case (Suc k')
      with k rounds have "Suc k' < length rest"
        by simp
      with IH have "\<exists>a results.
                create env (Suc i + k') (sent (rest ! k')) = Choices (Some a)
                \<and> history (rest ! Suc k') = sent (rest ! k') @ Assistant a # results
                \<and> list_all2 answers (tool_calls a) results"
        by blast
      with Suc rounds show ?thesis
        by simp
    qed
    from first second show ?thesis
      by blast
  qed
qed



text \<open>The lengths of the two prompts.\<close>

lemma length_buildSystemPrompt:
  "length (buildSystemPrompt fmt owner' repo startDate endDate)
     = 465 + length owner' + length repo + length (fmt startDate) + length (fmt endDate)"
  by (simp add: buildSystemPrompt_def length_js)

lemma length_buildUserPrompt:
  "length (buildUserPrompt fmt owner' repo startDate endDate)
     = 1092 + length owner' + length repo + length (fmt startDate) + length (fmt endDate)"
  by (simp add: buildUserPrompt_def length_js)

lemmas run_simps =
  length_buildSystemPrompt length_buildUserPrompt
  summarizeRepo_def agent_loop.simps Let_def scripted_def budgetConversation_def
  totalMessageSize_def estimateTokens_def MAX_TOTAL_MESSAGE_TOKENS_def MAX_TOOL_RESULT_TOKENS_def
  maxIterations_def handleToolCall_def argument_payload_def JSON_parse_def js_Cons js_Nil
  is_whitespace_def is_digit_def callTool_def mapToolNameAndArgs_def tool_result_text_def
  item_or_json_def item_text_def truncateContent_def list_commits_call_def text_result_def
  parseSummaryFromMessage_def decode_payload_def jsonMatch_def or_else_def no_summary_def
  slice_last_def

subsection \<open>Every tool call is answered\<close>

text \<open>
  C1 (as amended). In one summarization, whenever a further round is sent, the
  conversation at its head is what the previous round sent, followed by the assistant
  message the service returned and by exactly one tool message per tool call of that
  message, in the order of the calls and with their ids (exactly one per call when the
  ids of the calls are distinct), for any outcome of the tool invocations. Every list the loop holds or sends, also after the pruning step, is
  answered: each assistant message still in it is followed at once by one tool message
  per tool call. Pruning may remove an assistant message or tool results altogether.
\<close>

theorem summarizeRepo_tool_calls_answered:
  assumes "summarizeRepo env owner' repo startDate endDate = (rounds, outcome)"
  shows "(\<forall>k. Suc k < length rounds \<longrightarrow>
            (\<exists>a results.
               create env k (sent (rounds ! k)) = Choices (Some a)
               \<and> history (rounds ! Suc k) = sent (rounds ! k) @ Assistant a # results
               \<and> list_all2 answers (tool_calls a) results
               \<and> (distinct (map tc_id (tool_calls a)) \<longrightarrow>
                    list_all (\<lambda>tc. length (filter (answers tc) results) = 1) (tool_calls a))))
       \<and> (\<forall>rd \<in> set rounds.
            sent rd = budgetConversation (history rd)
            \<and> answered (history rd) \<and> answered (sent rd))"
proof -
  let ?start = "[System (buildSystemPrompt (format_date env) owner' repo startDate endDate),
                 User (buildUserPrompt (format_date env) owner' repo startDate endDate)]"
  have wf: "well_formed ?start"
    by (simp add: well_formed_def)
  from assms have "agent_loop env owner' repo 0 ?start = (rounds, outcome)"
    by (simp add: summarizeRepo_def Let_def)
  from agent_loop_rounds [OF wf this]
  have pairs: "\<forall>k. Suc k < length rounds \<longrightarrow>
            (\<exists>a results.
               create env k (sent (rounds ! k)) = Choices (Some a)
               \<and> history (rounds ! Suc k) = sent (rounds ! k) @ Assistant a # results
               \<and> list_all2 answers (tool_calls a) results)"
    and lists: "\<forall>rd \<in> set rounds.
            sent rd = budgetConversation (history rd)
            \<and> answered (history rd) \<and> answered (sent rd)"
    by (auto simp: well_formed_def)
  have "\<exists>a results.
               create env k (sent (rounds ! k)) = Choices (Some a)
               \<and> history (rounds ! Suc k) = sent (rounds ! k) @ Assistant a # results
               \<and> list_all2 answers (tool_calls a) results
               \<and> (distinct (map tc_id (tool_calls a)) \<longrightarrow>
                    list_all (\<lambda>tc. length (filter (answers tc) results) = 1) (tool_calls a))"
    if k: "Suc k < length rounds" for k
  proof -
    from pairs k obtain a results
      where a: "create env k (sent (rounds ! k)) = Choices (Some a)"
        "history (rounds ! Suc k) = sent (rounds ! k) @ Assistant a # results"
        "list_all2 answers (tool_calls a) results"
      by blast
    from answers_exactly_one [OF a(3)] a show ?thesis
      by blast
  qed
  with lists show ?thesis
    by blast
qed

text \<open>The theorem at the run with one tool call: a second round is sent.\<close>

theorem summarizeRepo_tool_calls_answered_witness:
  "Suc 0 < length (fst (summarizeRepo one_call_then_done (js ''acme'') (js ''api'') 0 7))
   \<and> (\<exists>a results.
         create one_call_then_done 0
           (sent (fst (summarizeRepo one_call_then_done (js ''acme'') (js ''api'') 0 7) ! 0))
           = Choices (Some a)
         \<and> history (fst (summarizeRepo one_call_then_done (js ''acme'') (js ''api'') 0 7) ! Suc 0)
             = sent (fst (summarizeRepo one_call_then_done (js ''acme'') (js ''api'') 0 7) ! 0)
                 @ Assistant a # results
         \<and> list_all2 answers (tool_calls a) results
         \<and> distinct (map tc_id (tool_calls a))
         \<and> list_all (\<lambda>tc. length (filter (answers tc) results) = 1) (tool_calls a))
   \<and> answered (sent (fst (summarizeRepo one_call_then_done (js ''acme'') (js ''api'') 0 7) ! Suc 0))"
proof -
  let ?R = "fst (summarizeRepo one_call_then_done (js ''acme'') (js ''api'') 0 7)"
  have len: "length ?R = 2"
    by (simp add: run_simps one_call_then_done_def)
  then have mem: "?R ! Suc 0 \<in> set ?R"
    by simp
  from len have lt: "Suc 0 < length ?R"
    by simp
  have one: "distinct (map tc_id (tool_calls a))"
    if "create one_call_then_done 0 msgs = Choices (Some a)" for msgs a
    using that by (auto simp: one_call_then_done_def scripted_def)
  note run = summarizeRepo_tool_calls_answered
    [where env = one_call_then_done and owner' = "js ''acme''" and repo = "js ''api''"
       and startDate = 0 and endDate = 7, OF prod.collapse [symmetric]]
  from run lt obtain a results where
    first: "create one_call_then_done 0 (sent (?R ! 0)) = Choices (Some a)"
      "history (?R ! Suc 0) = sent (?R ! 0) @ Assistant a # results"
      "list_all2 answers (tool_calls a) results"
      "distinct (map tc_id (tool_calls a)) \<longrightarrow>
         list_all (\<lambda>tc. length (filter (answers tc) results) = 1) (tool_calls a)"
    by blast
  from one [OF first(1)] first(4)
  have "distinct (map tc_id (tool_calls a))"
    "list_all (\<lambda>tc. length (filter (answers tc) results) = 1) (tool_calls a)"
    by simp_all
  with first have "\<exists>a results.
         create one_call_then_done 0 (sent (?R ! 0)) = Choices (Some a)
         \<and> history (?R ! Suc 0) = sent (?R ! 0) @ Assistant a # results
         \<and> list_all2 answers (tool_calls a) results
         \<and> distinct (map tc_id (tool_calls a))
         \<and> list_all (\<lambda>tc. length (filter (answers tc) results) = 1) (tool_calls a)"
    by blast
  moreover from run mem have "answered (sent (?R ! Suc 0))"
    by blast
  ultimately show ?thesis
    using lt by blast
qed

lemma length_long_listing: "length long_listing = 16000"
  by (simp add: long_listing_def)

lemma long_listing_nonempty: "long_listing \<noteq> []"
  using length_long_listing by auto

text \<open>
  C1 as stated fails in the list sent after pruning. With six tool calls in round one,
  each answered by 4000 estimated tokens, the conversation exceeds the ceiling; the
  second request carries the system prompt and the last five messages only, which are
  the answers to the calls 2 to 6. The call \<^verbatim>\<open>call_1\<close> that the service emitted has no
  answer in the list that is sent, and the assistant message that requested the six
  calls is gone.
\<close>

theorem pruning_drops_answer_counterexample:
  "sent (fst (summarizeRepo six_calls_then_done (js ''acme'') (js ''api'') 0 7) ! 1)
     = [System (buildSystemPrompt (format_date six_calls_then_done) (js ''acme'') (js ''api'') 0 7),
        Tool (js ''call_2'') long_listing, Tool (js ''call_3'') long_listing,
        Tool (js ''call_4'') long_listing, Tool (js ''call_5'') long_listing,
        Tool (js ''call_6'') long_listing]
   \<and> (\<exists>a. create six_calls_then_done 0
              (sent (fst (summarizeRepo six_calls_then_done (js ''acme'') (js ''api'') 0 7) ! 0))
              = Choices (Some a)
            \<and> list_commits_call (js ''call_1'') (js ''{}'') \<in> set (tool_calls a))
   \<and> \<not> (\<exists>m. m \<in> set (sent (fst (summarizeRepo six_calls_then_done (js ''acme'') (js ''api'') 0 7) ! 1))
            \<and> answers (list_commits_call (js ''call_1'') (js ''{}'')) m)"
  by (auto simp add: run_simps six_calls_then_done_def length_long_listing long_listing_nonempty)

subsection \<open>Owner and repository of the summary\<close>

lemma agent_loop_outcome_fields:
  "agent_loop env owner' repo i messages = (rounds, Inr summary) \<Longrightarrow>
     owner summary = owner' \<and> repoName summary = repo"
proof (induction "maxIterations - i" arbitrary: i messages rounds)
  case 0
  then show ?case by (simp add: agent_loop_done)
next
  case (Suc n)
  then have lt: "i < maxIterations" by simp
  from Suc.hyps(2) lt have n: "n = maxIterations - Suc i" by simp
  from Suc.prems show ?case
    by (subst (asm) agent_loop.simps)
      (auto simp: lt Let_def dest: parseSummaryFromMessage_fields Suc.hyps(1) [OF n]
        split: completion.splits option.splits if_splits sum.splits prod.splits)
qed

text \<open>
  C10. Whenever \<open>summarizeRepo\<close> returns a summary, its \<open>owner\<close> and \<open>repoName\<close> are
  the arguments of the call, whatever the reasoning service answered.
\<close>

theorem summarizeRepo_owner_repo:
  assumes "snd (summarizeRepo env owner' repo startDate endDate) = Inr summary"
  shows "owner summary = owner' \<and> repoName summary = repo"
proof -
  obtain rounds where "summarizeRepo env owner' repo startDate endDate = (rounds, Inr summary)"
    using assms by (cases "summarizeRepo env owner' repo startDate endDate") auto
  then show ?thesis
    by (auto simp: summarizeRepo_def Let_def dest: agent_loop_outcome_fields)
qed

text \<open>
  The theorem at a run whose final payload carries \<^verbatim>\<open>"owner":"evil"\<close>: the member is
  ignored.
\<close>

theorem summarizeRepo_owner_repo_witness:
  "\<exists>summary.
     snd (summarizeRepo one_call_then_done (js ''acme'') (js ''api'') 0 7) = Inr summary
     \<and> owner summary = js ''acme'' \<and> repoName summary = js ''api''
     \<and> overallSummary summary = JString (js ''Two fixes'')"
proof -
  have run: "snd (summarizeRepo one_call_then_done (js ''acme'') (js ''api'') 0 7)
      = Inr \<lparr>repoName = js ''api'', owner = js ''acme'',
             overallSummary = JString (js ''Two fixes''),
             pullRequests = JArray [], breakingChanges = JArray []\<rparr>"
    by (simp add: run_simps one_call_then_done_def)
  from summarizeRepo_owner_repo [OF run] run show ?thesis
    by simp
qed

subsection \<open>Termination within the cap\<close>

text \<open>
  The parts of C2 that hold of the source: no run has more than 20 rounds, a reply
  without tool calls ends the loop in its round with the extracted summary, and a
  service whose every reply carries tool calls with payloads that decode exhausts the
  20 rounds and ends with the error of the cap.
\<close>

lemma agent_loop_cap: "length (fst (agent_loop env owner' repo i messages)) \<le> maxIterations - i"
proof (induction "maxIterations - i" arbitrary: i messages)
  case 0
  then show ?case by (simp add: agent_loop_done)
next
  case (Suc n)
  then have lt: "i < maxIterations" by simp
  from Suc.hyps(2) lt have n: "n = maxIterations - Suc i" by simp
  obtain rounds outcome where run: "agent_loop env owner' repo i messages = (rounds, outcome)"
    by (cases "agent_loop env owner' repo i messages")
  from agent_loop_step [OF lt run] obtain rest
    where rounds: "rounds = \<lparr>history = messages, sent = budgetConversation messages\<rparr> # rest"
      and more: "rest = [] \<or> (\<exists>messages'. agent_loop env owner' repo (Suc i) messages' = (rest, outcome))"
    by blast
  from more have "length rest \<le> n"
  proof
    assume "rest = []"
    then show ?thesis by simp
  next
    assume "\<exists>messages'. agent_loop env owner' repo (Suc i) messages' = (rest, outcome)"
    then obtain messages' where "agent_loop env owner' repo (Suc i) messages' = (rest, outcome)"
      by blast
    with Suc.hyps(1) [OF n, of messages'] n show ?thesis by simp
  qed
  with rounds run Suc.hyps(2) show ?case by simp
qed

lemma summarizeRepo_rounds_le_20:
  "length (fst (summarizeRepo env owner' repo startDate endDate)) \<le> 20"
  using agent_loop_cap [of env owner' repo 0] by (simp add: summarizeRepo_def Let_def maxIterations_def)

lemma agent_loop_no_tool_calls:
  assumes "i < maxIterations"
    and "create env i (budgetConversation messages) = Choices (Some a)"
    and "tool_calls a = []"
  shows "agent_loop env owner' repo i messages =
           ([\<lparr>history = messages, sent = budgetConversation messages\<rparr>],
            parseSummaryFromMessage (case message_content a of Some c \<Rightarrow> c | None \<Rightarrow> [])
              owner' repo)"
  using assms by (subst agent_loop.simps) (simp add: Let_def)

lemma handleToolCall_decodes:
  "arguments_decode tc \<Longrightarrow> \<exists>m. handleToolCall env i j tc = Inr m"
  by (auto simp: handleToolCall_def arguments_decode_def Let_def split: sum.splits)

lemma handleToolCall_malformed:
  "\<not> arguments_decode tc \<Longrightarrow> \<exists>e. handleToolCall env i j tc = Inl e"
  by (auto simp: handleToolCall_def arguments_decode_def Let_def split: sum.splits)

lemma handleToolCalls_decode:
  "list_all arguments_decode tcs \<Longrightarrow> \<exists>msgs'. handleToolCalls env i j tcs msgs = Inr msgs'"
proof (induction tcs arbitrary: j msgs)
  case Nil
  then show ?case by simp
next
  case (Cons tc tcs)
  then obtain m where "handleToolCall env i j tc = Inr m"
    using handleToolCall_decodes [of tc env i j] by auto
  with Cons show ?case by simp
qed

lemma agent_loop_exhausted:
  assumes "\<And>k msgs. \<exists>a. create env k msgs = Choices (Some a) \<and> tool_calls a \<noteq> []
                        \<and> list_all arguments_decode (tool_calls a)"
  shows "snd (agent_loop env owner' repo i messages)
           = Inl (Error (js ''Max iterations reached while processing repo summary''))
         \<and> length (fst (agent_loop env owner' repo i messages)) = maxIterations - i"
proof (induction "maxIterations - i" arbitrary: i messages)
  case 0
  then show ?case by (simp add: agent_loop_done)
next
  case (Suc n)
  then have lt: "i < maxIterations" by simp
  from Suc.hyps(2) lt have n: "n = maxIterations - Suc i" by simp
  from assms obtain a where a: "create env i (budgetConversation messages) = Choices (Some a)"
    "tool_calls a \<noteq> []" "list_all arguments_decode (tool_calls a)"
    by blast
  from handleToolCalls_decode [OF a(3)] obtain msgs'
    where h: "handleToolCalls env i 0 (tool_calls a) (budgetConversation messages @ [Assistant a]) = Inr msgs'"
    by blast
  have "agent_loop env owner' repo i messages =
          (\<lparr>history = messages, sent = budgetConversation messages\<rparr>
             # fst (agent_loop env owner' repo (Suc i) msgs'),
           snd (agent_loop env owner' repo (Suc i) msgs'))"
    using lt a h by (subst agent_loop.simps) (simp add: Let_def split: prod.splits)
  with Suc.hyps(1) [OF n, of msgs'] Suc.hyps(2) show ?case by simp
qed

text \<open>
  C2 at a service whose every response carries one tool call: the payload of the second
  round does not decode, \<open>JSON.parse\<close> throws before the \<^verbatim>\<open>try\<close> block, and the run
  ends after two rounds with a \<open>SyntaxError\<close>, not after the cap with the error of the
  cap.
\<close>

theorem malformed_arguments_end_loop_early:
  "(\<forall>i msgs. \<exists>a. create malformed_second i msgs = Choices (Some a) \<and> tool_calls a \<noteq> [])
   \<and> length (fst (summarizeRepo malformed_second (js ''acme'') (js ''api'') 0 7)) = 2
   \<and> snd (summarizeRepo malformed_second (js ''acme'') (js ''api'') 0 7) = Inl SyntaxError"
  by (simp add: run_simps malformed_second_def)

subsection \<open>Malformed argument payloads\<close>

text \<open>
  C3 at a tool call whose payload is cut off: the payload does not decode, the tool
  call yields no tool message but the \<open>SyntaxError\<close>, and the summarization ends with
  it after the first round. The sibling path of the same loop body does what the claim
  says: an error thrown by \<open>callTool\<close> (here on an unconnected adapter) becomes a tool
  message that is fed back.
\<close>

theorem malformed_arguments_abort_summarization:
  \<open>JSON_parse (js ''{"owner":"acme",'') = Inl SyntaxError
   \<and> handleToolCall malformed_first 0 0 (list_commits_call (js ''call_1'') (js ''{"owner":"acme",''))
       = Inl SyntaxError
   \<and> summarizeRepo malformed_first (js ''acme'') (js ''api'') 0 7
       = ([\<lparr>history =
               [System (buildSystemPrompt (format_date malformed_first) (js ''acme'') (js ''api'') 0 7),
                User (buildUserPrompt (format_date malformed_first) (js ''acme'') (js ''api'') 0 7)],
             sent =
               [System (buildSystemPrompt (format_date malformed_first) (js ''acme'') (js ''api'') 0 7),
                User (buildUserPrompt (format_date malformed_first) (js ''acme'') (js ''api'') 0 7)]\<rparr>],
          Inl SyntaxError)
   \<and> handleToolCall (scripted (\<lambda>i. \<lparr>message_content = None, tool_calls = []\<rparr>) None) 0 0
         (list_commits_call (js ''call_1'') (js ''{}''))
       = Inr (Tool (js ''call_1'') (js ''Error: MCP client not connected''))\<close>
  by (simp add: run_simps malformed_first_def)

subsection \<open>Pruning\<close>

lemma foldl_add_sum_list:
  "foldl (\<lambda>s x. s + f x) a xs = a + sum_list (map f xs)" for a :: nat
  by (induction xs arbitrary: a) simp_all

lemma totalMessageSize_sum:
  "totalMessageSize ms = sum_list (map (\<lambda>m. estimateTokens (content_text m)) ms)"
  by (simp add: totalMessageSize_def foldl_add_sum_list)

lemma totalMessageSize_append:
  "totalMessageSize (xs @ ys) = totalMessageSize xs + totalMessageSize ys"
  by (simp add: totalMessageSize_sum)

lemma totalMessageSize_drop_le: "totalMessageSize (drop n ms) \<le> totalMessageSize ms"
proof -
  have "totalMessageSize ms = totalMessageSize (take n ms) + totalMessageSize (drop n ms)"
    by (simp add: totalMessageSize_append [symmetric])
  then show ?thesis by simp
qed

text \<open>
  What the pruning step does keep: below the ceiling it is the identity; above it the
  result is the first message followed by the last five; and from six messages on the
  estimate does not grow.
\<close>

lemma budgetConversation_below:
  "totalMessageSize ms \<le> MAX_TOTAL_MESSAGE_TOKENS \<Longrightarrow> budgetConversation ms = ms"
  by (simp add: budgetConversation_def)

lemma budgetConversation_retains:
  assumes "MAX_TOTAL_MESSAGE_TOKENS < totalMessageSize ms"
  shows "ms \<noteq> [] \<and> budgetConversation ms = hd ms # slice_last 5 ms"
proof -
  from assms have ne: "ms \<noteq> []"
    by (auto simp: totalMessageSize_def)
  with assms have "budgetConversation ms = hd ms # slice_last 5 ms"
    by (cases ms) (simp_all add: budgetConversation_def)
  with ne show ?thesis by simp
qed

lemma budgetConversation_total_le:
  assumes "6 \<le> length ms"
  shows "totalMessageSize (budgetConversation ms) \<le> totalMessageSize ms"
proof (cases "MAX_TOTAL_MESSAGE_TOKENS < totalMessageSize ms")
  case False
  then show ?thesis by (simp add: budgetConversation_def)
next
  case True
  from assms obtain m rest where ms: "ms = m # rest" and rest: "5 \<le> length rest"
    by (cases ms) auto
  from rest have "length rest - 4 = Suc (length rest - 5)"
    by simp
  then have "slice_last 5 ms = drop (length rest - 5) rest"
    by (simp add: ms slice_last_def)
  with True ms have "budgetConversation ms = m # drop (length rest - 5) rest"
    by (simp add: budgetConversation_def)
  moreover have "totalMessageSize (m # drop (length rest - 5) rest)
      = totalMessageSize [m] + totalMessageSize (drop (length rest - 5) rest)"
    by (simp add: totalMessageSize_sum)
  moreover have "totalMessageSize ms = totalMessageSize [m] + totalMessageSize rest"
    by (simp add: ms totalMessageSize_sum)
  ultimately show ?thesis
    using totalMessageSize_drop_le [of "length rest - 5" rest] by simp
qed

lemma length_huge_listing: "length huge_listing = 50000"
  by (simp add: huge_listing_def)

lemma huge_listing_nonempty: "huge_listing \<noteq> []"
  using length_huge_listing by auto

lemma truncation_marker_nonempty: "truncation_marker \<noteq> []"
  using length_truncation_marker by auto

text \<open>
  C4 at a conversation of five messages. After a first round with two tool calls whose
  results are cut to 10011 estimated tokens each, the conversation has five messages
  and 20426 estimated tokens. The pruning step keeps the system prompt and the last
  five messages, which are all of them: the list it sends has the system prompt twice
  and 20549 estimated tokens, more than its input.
\<close>

theorem pruning_short_conversation_grows:
  "history (fst (summarizeRepo two_big_calls_then_done (js ''acme'') (js ''api'') 0 7) ! 1)
     = [System (buildSystemPrompt (format_date two_big_calls_then_done) (js ''acme'') (js ''api'') 0 7),
        User (buildUserPrompt (format_date two_big_calls_then_done) (js ''acme'') (js ''api'') 0 7),
        Assistant \<lparr>message_content = None,
                   tool_calls = [list_commits_call (js ''call_1'') (js ''{}''),
                                 list_commits_call (js ''call_2'') (js ''{}'')]\<rparr>,
        Tool (js ''call_1'') (take 40000 huge_listing @ truncation_marker),
        Tool (js ''call_2'') (take 40000 huge_listing @ truncation_marker)]
   \<and> sent (fst (summarizeRepo two_big_calls_then_done (js ''acme'') (js ''api'') 0 7) ! 1)
     = System (buildSystemPrompt (format_date two_big_calls_then_done) (js ''acme'') (js ''api'') 0 7)
       # history (fst (summarizeRepo two_big_calls_then_done (js ''acme'') (js ''api'') 0 7) ! 1)
   \<and> totalMessageSize
        (history (fst (summarizeRepo two_big_calls_then_done (js ''acme'') (js ''api'') 0 7) ! 1))
      = 20426
   \<and> totalMessageSize
        (sent (fst (summarizeRepo two_big_calls_then_done (js ''acme'') (js ''api'') 0 7) ! 1))
      = 20549"
  by (simp add: run_simps two_big_calls_then_done_def length_huge_listing
      huge_listing_nonempty length_truncation_marker truncation_marker_nonempty)

end
